theory Spec2Isabelle
  imports Main
begin

section \<open>Python strings\<close>

text \<open>
  A Python \<^verbatim>\<open>str\<close> is a sequence of Unicode code points; \<^verbatim>\<open>len\<close> counts code points.
  A string is therefore modelled as a list of code points (natural numbers), not as a
  list of bytes. \<open>str_of\<close> embeds an ASCII literal.
\<close>

type_synonym pystr = "nat list"

definition str_of :: "string \<Rightarrow> pystr" where
  "str_of s = map of_char s"

text \<open>
  \<^verbatim>\<open>str.isdigit\<close>, \<^verbatim>\<open>str.isdecimal\<close> and the regular expression class \<^verbatim>\<open>\d\<close> are
  defined by the Unicode character database of the interpreter. The two tables below
  are the maximal code point ranges of Unicode 14.0.0 (CPython 3.11):
  \<open>decimal_ranges\<close> holds the characters of Numeric_Type=Decimal (every range is a
  run of blocks \<open>0..9\<close>, so the value of a character is its offset modulo 10), and
  \<open>digit_only_ranges\<close> holds the characters of Numeric_Type=Digit, such as the
  superscript digits, which \<^verbatim>\<open>isdigit\<close> accepts and \<^verbatim>\<open>isdecimal\<close> rejects.
\<close>

definition decimal_ranges :: "(nat \<times> nat) list" where
  "decimal_ranges =
    [(48, 57), (1632, 1641), (1776, 1785), (1984, 1993), (2406, 2415), (2534, 2543),
     (2662, 2671), (2790, 2799), (2918, 2927), (3046, 3055), (3174, 3183), (3302, 3311),
     (3430, 3439), (3558, 3567), (3664, 3673), (3792, 3801), (3872, 3881), (4160, 4169),
     (4240, 4249), (6112, 6121), (6160, 6169), (6470, 6479), (6608, 6617), (6784, 6793),
     (6800, 6809), (6992, 7001), (7088, 7097), (7232, 7241), (7248, 7257),
     (42528, 42537), (43216, 43225), (43264, 43273), (43472, 43481), (43504, 43513),
     (43600, 43609), (44016, 44025), (65296, 65305), (66720, 66729), (68912, 68921),
     (69734, 69743), (69872, 69881), (69942, 69951), (70096, 70105), (70384, 70393),
     (70736, 70745), (70864, 70873), (71248, 71257), (71360, 71369), (71472, 71481),
     (71904, 71913), (72016, 72025), (72784, 72793), (73040, 73049), (73120, 73129),
     (92768, 92777), (92864, 92873), (93008, 93017), (120782, 120831),
     (123200, 123209), (123632, 123641), (125264, 125273), (130032, 130041)]"

definition digit_only_ranges :: "(nat \<times> nat) list" where
  "digit_only_ranges =
    [(178, 179), (185, 185), (4969, 4977), (6618, 6618), (8304, 8304), (8308, 8313),
     (8320, 8329), (9312, 9320), (9332, 9340), (9352, 9360), (9450, 9450), (9461, 9469),
     (9471, 9471), (10102, 10110), (10112, 10120), (10122, 10130), (68160, 68163),
     (69216, 69224), (69714, 69722), (127232, 127242)]"

definition in_range :: "nat \<Rightarrow> nat \<times> nat \<Rightarrow> bool" where
  "in_range c r = (fst r \<le> c \<and> c \<le> snd r)"

definition py_isdecimal :: "nat \<Rightarrow> bool" where
  "py_isdecimal c = list_ex (in_range c) decimal_ranges"

definition py_isdigit :: "nat \<Rightarrow> bool" where
  "py_isdigit c = (list_ex (in_range c) decimal_ranges \<or> list_ex (in_range c) digit_only_ranges)"

definition decimal_value :: "nat \<Rightarrow> int" where
  "decimal_value c =
     (case find (in_range c) decimal_ranges of
        Some r \<Rightarrow> int ((c - fst r) mod 10)
      | None \<Rightarrow> 0)"

text \<open>\<^verbatim>\<open>s.isdigit()\<close>: every character is a digit and there is at least one character.\<close>

definition str_isdigit :: "pystr \<Rightarrow> bool" where
  "str_isdigit s = (s \<noteq> [] \<and> list_all py_isdigit s)"

text \<open>The ten ASCII characters \<^verbatim>\<open>0\<close> to \<^verbatim>\<open>9\<close>.\<close>

definition ascii_digit :: "nat \<Rightarrow> bool" where
  "ascii_digit c = (48 \<le> c \<and> c \<le> 57)"

text \<open>Decimal rendering of a number, as \<^verbatim>\<open>str(n)\<close> and the \<^verbatim>\<open>%i\<close> conversion print it.\<close>

fun str_nat :: "nat \<Rightarrow> pystr" where
  "str_nat n = (if n < 10 then [48 + n] else str_nat (n div 10) @ [48 + n mod 10])"

definition str_int :: "int \<Rightarrow> pystr" where
  "str_int i = (if i < 0 then 45 # str_nat (nat (- i)) else str_nat (nat i))"

text \<open>Left padding with \<^verbatim>\<open>0\<close> to a width, as \<^verbatim>\<open>%02d\<close> does.\<close>

definition zero_pad :: "nat \<Rightarrow> pystr \<Rightarrow> pystr" where
  "zero_pad w s = replicate (w - length s) 48 @ s"

section \<open>Exceptions\<close>

text \<open>
  The exceptions the program can raise, each carrying its message (\<^verbatim>\<open>str(e)\<close>).
  The specification's ValidationError and StateError are both \<^verbatim>\<open>ValueError\<close> in the
  source, told apart by their message.
\<close>

datatype error = ValueError pystr | OverflowError pystr

fun str_error :: "error \<Rightarrow> pystr" where
  "str_error (ValueError m) = m"
| "str_error (OverflowError m) = m"

section \<open>Calendar dates (\<^verbatim>\<open>datetime.date\<close>)\<close>

record date =
  year :: int
  month :: int
  day :: int

definition is_leap :: "int \<Rightarrow> bool" where
  "is_leap y = (y mod 4 = 0 \<and> (y mod 100 \<noteq> 0 \<or> y mod 400 = 0))"

definition DAYS_IN_MONTH :: "int list" where
  "DAYS_IN_MONTH = [-1, 31, 28, 31, 30, 31, 30, 31, 31, 30, 31, 30, 31]"

definition DAYS_BEFORE_MONTH :: "int list" where
  "DAYS_BEFORE_MONTH = [-1, 0, 31, 59, 90, 120, 151, 181, 212, 243, 273, 304, 334]"

definition days_in_month :: "int \<Rightarrow> int \<Rightarrow> int" where
  "days_in_month y m = (if m = 2 \<and> is_leap y then 29 else DAYS_IN_MONTH ! nat m)"

definition days_before_year :: "int \<Rightarrow> int" where
  "days_before_year y = (let y1 = y - 1 in y1 * 365 + y1 div 4 - y1 div 100 + y1 div 400)"

definition days_before_month :: "int \<Rightarrow> int \<Rightarrow> int" where
  "days_before_month y m = DAYS_BEFORE_MONTH ! nat m + (if m > 2 \<and> is_leap y then 1 else 0)"

text \<open>\<^verbatim>\<open>date.toordinal()\<close>: 1 January of year 1 is day 1.\<close>

definition toordinal :: "date \<Rightarrow> int" where
  "toordinal d = days_before_year (year d) + days_before_month (year d) (month d) + day d"

text \<open>\<^verbatim>\<open>date.weekday()\<close>: Monday is 0, Saturday is 5, Sunday is 6.\<close>

definition weekday :: "date \<Rightarrow> int" where
  "weekday d = (toordinal d + 6) mod 7"

definition valid_date :: "date \<Rightarrow> bool" where
  "valid_date d =
     (1 \<le> year d \<and> year d \<le> 9999 \<and> 1 \<le> month d \<and> month d \<le> 12 \<and>
      1 \<le> day d \<and> day d \<le> days_in_month (year d) (month d))"

text \<open>
  The constructor \<^verbatim>\<open>date(year, month, day)\<close> checks its fields in this order and
  raises \<^verbatim>\<open>ValueError\<close> on the first one out of range.
\<close>

definition new_date :: "int \<Rightarrow> int \<Rightarrow> int \<Rightarrow> error + date" where
  "new_date y m d =
     (if \<not> (1 \<le> y \<and> y \<le> 9999)
      then Inl (ValueError (str_of ''year '' @ str_int y @ str_of '' is out of range''))
      else if \<not> (1 \<le> m \<and> m \<le> 12)
      then Inl (ValueError (str_of ''month must be in 1..12''))
      else if \<not> (1 \<le> d \<and> d \<le> days_in_month y m)
      then Inl (ValueError (str_of ''day is out of range for month''))
      else Inr \<lparr>year = y, month = m, day = d\<rparr>)"

text \<open>\<^verbatim>\<open>d.replace(year=y)\<close> builds a new date through the checking constructor.\<close>

definition replace_year :: "date \<Rightarrow> int \<Rightarrow> error + date" where
  "replace_year d y = new_date y (month d) (day d)"

text \<open>Comparison of dates is the comparison of \<open>(year, month, day)\<close>.\<close>

definition date_less :: "date \<Rightarrow> date \<Rightarrow> bool" where
  "date_less a b =
     (year a < year b \<or> (year a = year b \<and>
        (month a < month b \<or> (month a = month b \<and> day a < day b))))"

text \<open>\<^verbatim>\<open>(a - b).days\<close>.\<close>

definition days_between :: "date \<Rightarrow> date \<Rightarrow> int" where
  "days_between a b = toordinal a - toordinal b"

text \<open>
  \<^verbatim>\<open>d + timedelta(days=n)\<close> for \<open>n \<ge> 0\<close>: the date \<open>n\<close> calendar days later, and
  \<^verbatim>\<open>OverflowError\<close> when that date lies after 31 December 9999.
\<close>

definition next_day :: "date \<Rightarrow> date" where
  "next_day d =
     (if day d < days_in_month (year d) (month d) then d\<lparr>day := day d + 1\<rparr>
      else if month d < 12 then \<lparr>year = year d, month = month d + 1, day = 1\<rparr>
      else \<lparr>year = year d + 1, month = 1, day = 1\<rparr>)"

definition add_days :: "date \<Rightarrow> nat \<Rightarrow> error + date" where
  "add_days d n =
     (let r = (next_day ^^ n) d
      in if year r > 9999 then Inl (OverflowError (str_of ''date value out of range''))
         else Inr r)"

text \<open>
  \<^verbatim>\<open>d.strftime("%Y.%m.%d")\<close>: month and day are padded to two digits; the year is
  printed by the C library, which pads it to four digits on some platforms and not at
  all on others (glibc); the two agree from year 1000 on. The model follows glibc.
\<close>

definition strftime_Ymd :: "date \<Rightarrow> pystr" where
  "strftime_Ymd d =
     str_int (year d) @ [46] @ zero_pad 2 (str_int (month d)) @ [46] @ zero_pad 2 (str_int (day d))"

section \<open>Parsing a date: \<^verbatim>\<open>datetime.strptime(value, '%d.%m.%Y')\<close>\<close>

text \<open>
  \<^verbatim>\<open>strptime\<close> compiles the format to the regular expression
  \<^verbatim>\<open>(?P<d>3[0-1]|[1-2]\d|0[1-9]|[1-9]| [1-9])\.(?P<m>1[0-2]|0[1-9]|[1-9])\.(?P<Y>\d\d\d\d)\<close>,
  matches it at the start of the text, rejects the text when the match does not reach
  its end, converts the three groups with \<^verbatim>\<open>int\<close> and builds the date through the
  checking constructor. \<^verbatim>\<open>\d\<close> is any Unicode decimal digit.

  A matcher gives the ways a pattern matches at the start of the input, in the order
  the backtracking matcher tries them, each as (matched text, remaining input).
\<close>

type_synonym matcher = "pystr \<Rightarrow> (pystr \<times> pystr) list"

definition between :: "nat \<Rightarrow> nat \<Rightarrow> nat \<Rightarrow> bool" where
  "between lo hi c = (lo \<le> c \<and> c \<le> hi)"

definition re_class1 :: "(nat \<Rightarrow> bool) \<Rightarrow> matcher" where
  "re_class1 p s = (case s of a # r \<Rightarrow> if p a then [([a], r)] else [] | _ \<Rightarrow> [])"

definition re_class2 :: "(nat \<Rightarrow> bool) \<Rightarrow> (nat \<Rightarrow> bool) \<Rightarrow> matcher" where
  "re_class2 p q s =
     (case s of a # b # r \<Rightarrow> if p a \<and> q b then [([a, b], r)] else [] | _ \<Rightarrow> [])"

definition re_d :: matcher where
  "re_d s =
     re_class2 (between 51 51) (between 48 49) s @
     re_class2 (between 49 50) py_isdecimal s @
     re_class2 (between 48 48) (between 49 57) s @
     re_class1 (between 49 57) s @
     re_class2 (between 32 32) (between 49 57) s"

definition re_m :: matcher where
  "re_m s =
     re_class2 (between 49 49) (between 48 50) s @
     re_class2 (between 48 48) (between 49 57) s @
     re_class1 (between 49 57) s"

definition re_Y :: matcher where
  "re_Y s =
     (case s of
        a # b # c # d # r \<Rightarrow>
          if py_isdecimal a \<and> py_isdecimal b \<and> py_isdecimal c \<and> py_isdecimal d
          then [([a, b, c, d], r)] else []
      | _ \<Rightarrow> [])"

definition re_dot :: matcher where
  "re_dot s = re_class1 (between 46 46) s"

text \<open>All matches of the whole pattern: the groups \<open>d\<close>, \<open>m\<close>, \<open>Y\<close> and the unmatched rest.\<close>

definition re_match_dmY :: "pystr \<Rightarrow> (pystr \<times> pystr \<times> pystr \<times> pystr) list" where
  "re_match_dmY s =
     [(d, m, y, r5). (d, r1) \<leftarrow> re_d s, (p1, r2) \<leftarrow> re_dot r1, (m, r3) \<leftarrow> re_m r2,
                     (p2, r4) \<leftarrow> re_dot r3, (y, r5) \<leftarrow> re_Y r4]"

text \<open>
  \<^verbatim>\<open>int(text)\<close> on a matched group: leading blanks are skipped and every remaining
  character is a decimal digit, so the conversion cannot fail there.
\<close>

definition py_int :: "pystr \<Rightarrow> int" where
  "py_int s = foldl (\<lambda>a c. 10 * a + decimal_value c) 0 (dropWhile (\<lambda>c. c = 32) s)"

text \<open>
  The first match is the one the matcher returns. The messages of the two parse errors
  quote the input in the library; they are shortened here, and \<open>Birthday\<close> replaces
  them anyway.
\<close>

definition strptime_dmY :: "pystr \<Rightarrow> error + date" where
  "strptime_dmY s =
     (case re_match_dmY s of
        [] \<Rightarrow> Inl (ValueError (str_of ''time data does not match format''))
      | (d, m, y, r) # _ \<Rightarrow>
          if r \<noteq> [] then Inl (ValueError (str_of ''unconverted data remains''))
          else new_date (py_int y) (py_int m) (py_int d))"

section \<open>Field value types\<close>

text \<open>
  \<^verbatim>\<open>Field\<close> holds one attribute \<^verbatim>\<open>value\<close>. The arguments are strings, so the test
  \<^verbatim>\<open>isinstance(value, str)\<close> of \<^verbatim>\<open>Phone\<close> holds by typing.
\<close>

record phone =
  phone_value :: pystr

definition Phone :: "pystr \<Rightarrow> error + phone" where
  "Phone v =
     (if \<not> str_isdigit v \<or> length v \<noteq> 10
      then Inl (ValueError (str_of ''Phone number must be a string of 10 digits.''))
      else Inr \<lparr>phone_value = v\<rparr>)"

record birthday =
  birthday_value :: pystr
  date_value :: date

definition Birthday :: "pystr \<Rightarrow> error + birthday" where
  "Birthday v =
     (case strptime_dmY v of
        Inl (ValueError m) \<Rightarrow> Inl (ValueError (str_of ''Invalid date format. Use DD.MM.YYYY''))
      | Inl e \<Rightarrow> Inl e
      | Inr d \<Rightarrow> Inr \<lparr>birthday_value = v, date_value = d\<rparr>)"

section \<open>Contact records\<close>

text \<open>
  A method that mutates its object takes the object and returns the outcome together
  with the object after the call; on an exception the outcome is \<open>Inl\<close> and the object
  is the state the exception left behind.
\<close>

record record_t =
  name :: pystr
  phones :: "phone list"
  birthday :: "birthday option"

definition Record :: "pystr \<Rightarrow> record_t" where
  "Record n = \<lparr>name = n, phones = [], birthday = None\<rparr>"

definition add_phone :: "record_t \<Rightarrow> pystr \<Rightarrow> (error + unit) \<times> record_t" where
  "add_phone r p =
     (case Phone p of
        Inl e \<Rightarrow> (Inl e, r)
      | Inr ph \<Rightarrow> (Inr (), r\<lparr>phones := phones r @ [ph]\<rparr>))"

text \<open>The values \<^verbatim>\<open>add_birthday\<close> may be handed: a \<^verbatim>\<open>Birthday\<close> or something else.\<close>

datatype pyobj = BirthdayObj birthday | StrObj pystr | NoneObj

definition add_birthday :: "record_t \<Rightarrow> pyobj \<Rightarrow> (error + unit) \<times> record_t" where
  "add_birthday r v =
     (case v of
        BirthdayObj b \<Rightarrow>
          if birthday r \<noteq> None
          then (Inl (ValueError (str_of ''Only one birthday allowed per record.'')), r)
          else (Inr (), r\<lparr>birthday := Some b\<rparr>)
      | _ \<Rightarrow> (Inl (ValueError (str_of ''Birthday must be an instance of Birthday class.'')), r))"

text \<open>
  \<^verbatim>\<open>edit_phone\<close>: the loop stops at the first phone whose value is \<open>old_phone\<close>;
  only there is \<^verbatim>\<open>Phone(new_phone)\<close> built, and its value stored in the found entry.
\<close>

fun edit_phone_loop :: "phone list \<Rightarrow> pystr \<Rightarrow> pystr \<Rightarrow> error + phone list" where
  "edit_phone_loop [] old_phone new_phone = Inr []"
| "edit_phone_loop (p # ps) old_phone new_phone =
     (if phone_value p = old_phone
      then (case Phone new_phone of
              Inl e \<Rightarrow> Inl e
            | Inr q \<Rightarrow> Inr (p\<lparr>phone_value := phone_value q\<rparr> # ps))
      else (case edit_phone_loop ps old_phone new_phone of
              Inl e \<Rightarrow> Inl e
            | Inr ps' \<Rightarrow> Inr (p # ps')))"

definition edit_phone :: "record_t \<Rightarrow> pystr \<Rightarrow> pystr \<Rightarrow> (error + unit) \<times> record_t" where
  "edit_phone r old_phone new_phone =
     (case edit_phone_loop (phones r) old_phone new_phone of
        Inl e \<Rightarrow> (Inl e, r)
      | Inr ps \<Rightarrow> (Inr (), r\<lparr>phones := ps\<rparr>))"

fun find_phone_loop :: "phone list \<Rightarrow> pystr \<Rightarrow> phone option" where
  "find_phone_loop [] number = None"
| "find_phone_loop (p # ps) number =
     (if phone_value p = number then Some p else find_phone_loop ps number)"

definition find_phone :: "record_t \<Rightarrow> pystr \<Rightarrow> phone option" where
  "find_phone r number = find_phone_loop (phones r) number"

section \<open>The address book\<close>

text \<open>
  \<^verbatim>\<open>AddressBook\<close> is a \<^verbatim>\<open>UserDict\<close>: its \<^verbatim>\<open>data\<close> is a dictionary, which keeps its
  keys unique and in insertion order. It is modelled as an association list;
  assigning to a key that is present replaces the value where it stands.
\<close>

type_synonym address_book = "(pystr \<times> record_t) list"

fun dict_set :: "'k \<Rightarrow> 'v \<Rightarrow> ('k \<times> 'v) list \<Rightarrow> ('k \<times> 'v) list" where
  "dict_set k v [] = [(k, v)]"
| "dict_set k v ((k', v') # d) =
     (if k' = k then (k, v) # d else (k', v') # dict_set k v d)"

fun dict_get :: "('k \<times> 'v) list \<Rightarrow> 'k \<Rightarrow> 'v option" where
  "dict_get [] k = None"
| "dict_get ((k', v') # d) k = (if k' = k then Some v' else dict_get d k)"

definition dict_values :: "('k \<times> 'v) list \<Rightarrow> 'v list" where
  "dict_values d = map snd d"

definition add_record :: "record_t \<Rightarrow> address_book \<Rightarrow> address_book" where
  "add_record r book = dict_set (name r) r book"

definition find_record :: "pystr \<Rightarrow> address_book \<Rightarrow> record_t option" where
  "find_record n book = dict_get book n"

definition delete_record :: "pystr \<Rightarrow> address_book \<Rightarrow> address_book" where
  "delete_record n book = filter (\<lambda>kv. fst kv \<noteq> n) book"

subsection \<open>Upcoming birthdays\<close>

text \<open>
  \<^verbatim>\<open>get_upcoming_birthdays\<close> reads the clock once (\<^verbatim>\<open>datetime.today().date()\<close>); the
  date it reads is the parameter \<open>today\<close>. The body of its loop is split in three:
  \<open>occurrence\<close> is lines 87 to 89, \<open>congratulation\<close> lines 92 to 96, and
  \<open>record_entry\<close> the whole body, returning the entries it appends.
\<close>

record entry =
  entry_name :: pystr
  congratulation_date :: pystr

definition occurrence :: "date \<Rightarrow> date \<Rightarrow> error + date" where
  "occurrence today b =
     (case replace_year b (year today) of
        Inl e \<Rightarrow> Inl e
      | Inr birthday_this_year \<Rightarrow>
          if date_less birthday_this_year today
          then replace_year birthday_this_year (year today + 1)
          else Inr birthday_this_year)"

definition congratulation :: "date \<Rightarrow> error + date" where
  "congratulation birthday_this_year =
     (if weekday birthday_this_year = 5 \<or> weekday birthday_this_year = 6
      then (if weekday birthday_this_year = 5 then add_days birthday_this_year 2
            else add_days birthday_this_year 1)
      else Inr birthday_this_year)"

definition record_entry :: "date \<Rightarrow> record_t \<Rightarrow> error + entry list" where
  "record_entry today r =
     (case birthday r of
        None \<Rightarrow> Inr []
      | Some b \<Rightarrow>
          (case occurrence today (date_value b) of
             Inl e \<Rightarrow> Inl e
           | Inr birthday_this_year \<Rightarrow>
               (let days_until_birthday = days_between birthday_this_year today
                in if 0 \<le> days_until_birthday \<and> days_until_birthday \<le> 7
                   then (case congratulation birthday_this_year of
                           Inl e \<Rightarrow> Inl e
                         | Inr c \<Rightarrow>
                             Inr [\<lparr>entry_name = name r,
                                   congratulation_date = strftime_Ymd c\<rparr>])
                   else Inr [])))"

fun upcoming_loop :: "date \<Rightarrow> record_t list \<Rightarrow> entry list \<Rightarrow> error + entry list" where
  "upcoming_loop today [] upcoming_birthdays = Inr upcoming_birthdays"
| "upcoming_loop today (r # rs) upcoming_birthdays =
     (case record_entry today r of
        Inl e \<Rightarrow> Inl e
      | Inr es \<Rightarrow> upcoming_loop today rs (upcoming_birthdays @ es))"

definition get_upcoming_birthdays :: "date \<Rightarrow> address_book \<Rightarrow> error + entry list" where
  "get_upcoming_birthdays today book = upcoming_loop today (dict_values book) []"

section \<open>The command \<^verbatim>\<open>add_contact\<close>\<close>

text \<open>
  \<^verbatim>\<open>input_error\<close> turns a \<^verbatim>\<open>KeyError\<close>, \<^verbatim>\<open>ValueError\<close> or \<^verbatim>\<open>IndexError\<close> of the
  wrapped command into its message, returned as the command's result; any other
  exception passes. The book is the state both share.
\<close>

definition input_error :: "(error + pystr) \<times> address_book \<Rightarrow> (error + pystr) \<times> address_book" where
  "input_error res =
     (case fst res of
        Inl (ValueError m) \<Rightarrow> (Inr m, snd res)
      | _ \<Rightarrow> res)"

definition add_contact_body :: "pystr list \<Rightarrow> address_book \<Rightarrow> (error + pystr) \<times> address_book" where
  "add_contact_body args book =
     (case args of
        n # phone # _ \<Rightarrow>
          (let (record, book1, message) =
                 (case find_record n book of
                    None \<Rightarrow> (Record n, add_record (Record n) book, str_of ''Contact added.'')
                  | Some r \<Rightarrow> (r, book, str_of ''Contact updated.''))
           in if phone \<noteq> []
              then (case add_phone record phone of
                      (Inl e, r') \<Rightarrow> (Inl e, dict_set n r' book1)
                    | (Inr u, r') \<Rightarrow> (Inr message, dict_set n r' book1))
              else (Inr message, book1))
      | _ \<Rightarrow>
          (Inl (ValueError (str_of ''not enough values to unpack (expected at least 2, got '' @
                            str_nat (length args) @ str_of '')'')), book))"

definition add_contact :: "pystr list \<Rightarrow> address_book \<Rightarrow> (error + pystr) \<times> address_book" where
  "add_contact args book = input_error (add_contact_body args book)"

section \<open>Definitions used by the statements\<close>

text \<open>
  Records and books the theorems are tried on.
\<close>

definition example_record :: record_t where
  "example_record =
     \<lparr>name = str_of ''Bob'',
      phones = [\<lparr>phone_value = str_of ''1234567890''\<rparr>, \<lparr>phone_value = str_of ''5550001111''\<rparr>],
      birthday = None\<rparr>"

definition duplicate_record :: record_t where
  "duplicate_record =
     \<lparr>name = str_of ''Bob'',
      phones = [\<lparr>phone_value = str_of ''1234567890''\<rparr>, \<lparr>phone_value = str_of ''1234567890''\<rparr>],
      birthday = None\<rparr>"

definition birthday_record :: record_t where
  "birthday_record =
     \<lparr>name = str_of ''Ann'', phones = [],
      birthday = Some \<lparr>birthday_value = str_of ''15.06.1990'',
                        date_value = \<lparr>year = 1990, month = 6, day = 15\<rparr>\<rparr>\<rparr>"

text \<open>
  The invariant of the directory: every key is the name of the record stored under it.
\<close>

definition keys_match :: "address_book \<Rightarrow> bool" where
  "keys_match book = list_all (\<lambda>kv. fst kv = name (snd kv)) book"

definition example_book :: address_book where
  "example_book = [(str_of ''Ann'', birthday_record), (str_of ''Bob'', example_record)]"

text \<open>
  The rule of the upcoming birthdays in the words of the specification. The occurrence
  of a birthday is the date with its month and day in the year of today, or in the
  next year when that date lies before today; a record is in the window when it has a
  birthday and the occurrence is at least 0 and at most 7 days after today; the
  congratulation date is the occurrence moved on by 2 days from a Saturday and by
  1 day from a Sunday.
\<close>

definition spec_occurrence :: "date \<Rightarrow> date \<Rightarrow> date" where
  "spec_occurrence today b =
     (if date_less \<lparr>year = year today, month = month b, day = day b\<rparr> today
      then \<lparr>year = year today + 1, month = month b, day = day b\<rparr>
      else \<lparr>year = year today, month = month b, day = day b\<rparr>)"

definition spec_days_until :: "date \<Rightarrow> date \<Rightarrow> int" where
  "spec_days_until today b = toordinal (spec_occurrence today b) - toordinal today"

definition spec_included :: "date \<Rightarrow> record_t \<Rightarrow> bool" where
  "spec_included today r =
     (case birthday r of
        None \<Rightarrow> False
      | Some b \<Rightarrow> 0 \<le> spec_days_until today (date_value b) \<and> spec_days_until today (date_value b) \<le> 7)"

definition spec_shift :: "int \<Rightarrow> nat" where
  "spec_shift wd = (if wd = 5 then 2 else if wd = 6 then 1 else 0)"

text \<open>The congratulation date: the occurrence, moved on by the shift of its weekday.\<close>

definition spec_congratulation :: "date \<Rightarrow> date \<Rightarrow> date" where
  "spec_congratulation today b =
     (next_day ^^ spec_shift (weekday (spec_occurrence today b))) (spec_occurrence today b)"

text \<open>
  The entry of a record in the window; it is only used for records that have a birthday.
\<close>

definition spec_entry :: "date \<Rightarrow> record_t \<Rightarrow> entry" where
  "spec_entry today r =
     \<lparr>entry_name = name r,
      congratulation_date = strftime_Ymd (spec_congratulation today (date_value (the (birthday r))))\<rparr>"

text \<open>
  A contact born on 29 February.
\<close>

definition leap_birthday :: birthday where
  "leap_birthday = \<lparr>birthday_value = str_of ''29.02.2024'',
                     date_value = \<lparr>year = 2024, month = 2, day = 29\<rparr>\<rparr>"

definition leap_record :: record_t where
  "leap_record = \<lparr>name = str_of ''Eve'', phones = [], birthday = Some leap_birthday\<rparr>"

definition leap_book :: address_book where
  "leap_book = [(str_of ''Eve'', leap_record)]"

text \<open>
  Books in which every birthday is a date of the calendar other than 29 February.
\<close>

definition plain_birthdays :: "address_book \<Rightarrow> bool" where
  "plain_birthdays book =
     list_all (\<lambda>r. case birthday r of
                       None \<Rightarrow> True
                     | Some b \<Rightarrow> valid_date (date_value b)
                                  \<and> \<not> (month (date_value b) = 2 \<and> day (date_value b) = 29))
       (dict_values book)"

text \<open>
  A birthday has an occurrence when the two calls of \<^verbatim>\<open>replace\<close> the loop may make
  for it succeed: its month and day exist in the year of today, and in the next year
  when the loop rolls forward.
\<close>

definition has_occurrence :: "date \<Rightarrow> date \<Rightarrow> bool" where
  "has_occurrence today b =
     (valid_date \<lparr>year = year today, month = month b, day = day b\<rparr> \<and>
      (\<not> date_less \<lparr>year = year today, month = month b, day = day b\<rparr> today \<or>
       valid_date \<lparr>year = year today + 1, month = month b, day = day b\<rparr>))"

definition all_occur :: "date \<Rightarrow> address_book \<Rightarrow> bool" where
  "all_occur today book =
     list_all (\<lambda>r. case birthday r of None \<Rightarrow> True | Some b \<Rightarrow> has_occurrence today (date_value b))
       (dict_values book)"

text \<open>
  Books for 10 June 2024, a Monday.
\<close>

definition mk_record :: "string \<Rightarrow> string \<Rightarrow> date \<Rightarrow> record_t" where
  "mk_record n t d =
     \<lparr>name = str_of n, phones = [],
      birthday = Some \<lparr>birthday_value = str_of t, date_value = d\<rparr>\<rparr>"

definition window_book :: address_book where
  "window_book =
     [(str_of ''Ann'', mk_record ''Ann'' ''17.06.1990'' \<lparr>year = 1990, month = 6, day = 17\<rparr>),
      (str_of ''Bob'', mk_record ''Bob'' ''18.06.1985'' \<lparr>year = 1985, month = 6, day = 18\<rparr>),
      (str_of ''Cid'', mk_record ''Cid'' ''09.06.2000'' \<lparr>year = 2000, month = 6, day = 9\<rparr>),
      (str_of ''Dan'', Record (str_of ''Dan''))]"

definition weekend_book :: address_book where
  "weekend_book =
     [(str_of ''Bob'', mk_record ''Bob'' ''15.06.1990'' \<lparr>year = 1990, month = 6, day = 15\<rparr>),
      (str_of ''Ann'', mk_record ''Ann'' ''16.06.1991'' \<lparr>year = 1991, month = 6, day = 16\<rparr>),
      (str_of ''Cid'', mk_record ''Cid'' ''12.06.1992'' \<lparr>year = 1992, month = 6, day = 12\<rparr>)]"

definition ann_record :: record_t where
  "ann_record = mk_record ''Ann'' ''17.06.1990'' \<lparr>year = 1990, month = 6, day = 17\<rparr>"

definition mixed_book :: address_book where
  "mixed_book = [(str_of ''Ann'', ann_record), (str_of ''Eve'', leap_record)]"

text \<open>
  The texts the three fields of a date may have: a day is \<^verbatim>\<open>1\<close> to \<^verbatim>\<open>9\<close>, or two
  characters \<^verbatim>\<open>01\<close> to \<^verbatim>\<open>31\<close> (a blank may stand for the leading zero), a month is
  \<^verbatim>\<open>1\<close> to \<^verbatim>\<open>9\<close> or \<^verbatim>\<open>01\<close> to \<^verbatim>\<open>12\<close>, a year is four decimal digits.
\<close>

definition day_text :: "pystr \<Rightarrow> bool" where
  "day_text x =
     (case x of
        [a] \<Rightarrow> between 49 57 a
      | [a, b] \<Rightarrow>
          (a = 51 \<and> between 48 49 b) \<or> (between 49 50 a \<and> py_isdecimal b) \<or>
          (a = 48 \<and> between 49 57 b) \<or> (a = 32 \<and> between 49 57 b)
      | _ \<Rightarrow> False)"

definition month_text :: "pystr \<Rightarrow> bool" where
  "month_text x =
     (case x of
        [a] \<Rightarrow> between 49 57 a
      | [a, b] \<Rightarrow> (a = 49 \<and> between 48 50 b) \<or> (a = 48 \<and> between 49 57 b)
      | _ \<Rightarrow> False)"

definition year_text :: "pystr \<Rightarrow> bool" where
  "year_text x = (length x = 4 \<and> list_all py_isdecimal x)"

definition date_text :: "pystr \<Rightarrow> pystr \<Rightarrow> pystr \<Rightarrow> pystr \<Rightarrow> bool" where
  "date_text t ds ms ys =
     (t = ds @ [46] @ ms @ [46] @ ys \<and> day_text ds \<and> month_text ms \<and> year_text ys)"

definition date_of_text :: "pystr \<Rightarrow> pystr \<Rightarrow> pystr \<Rightarrow> date" where
  "date_of_text ds ms ys = \<lparr>year = py_int ys, month = py_int ms, day = py_int ds\<rparr>"

text \<open>
  The form the specification names, \<^verbatim>\<open>DD.MM.YYYY\<close>: two digits, a dot, two digits, a
  dot, four digits, the digits being \<^verbatim>\<open>0\<close> to \<^verbatim>\<open>9\<close>; and the date such a text denotes.
\<close>

definition spec_strict_form :: "pystr \<Rightarrow> bool" where
  "spec_strict_form t =
     (length t = 10 \<and> list_all ascii_digit (take 2 t) \<and> t ! 2 = 46 \<and>
      list_all ascii_digit (take 2 (drop 3 t)) \<and> t ! 5 = 46 \<and> list_all ascii_digit (drop 6 t))"

definition spec_strict_date :: "pystr \<Rightarrow> date" where
  "spec_strict_date t = date_of_text (take 2 t) (take 2 (drop 3 t)) (drop 6 t)"

section \<open>Verification\<close>

subsection \<open>Phone numbers\<close>

lemma ascii_digit_isdigit: "ascii_digit c \<Longrightarrow> py_isdigit c"
  by (simp add: ascii_digit_def py_isdigit_def decimal_ranges_def in_range_def)

lemma ascii_digit_isdecimal: "ascii_digit c \<Longrightarrow> py_isdecimal c"
  by (simp add: ascii_digit_def py_isdecimal_def decimal_ranges_def in_range_def)

lemma isdigit_below_128: "c < 128 \<Longrightarrow> py_isdigit c \<Longrightarrow> ascii_digit c"
  by (simp add: ascii_digit_def py_isdigit_def decimal_ranges_def digit_only_ranges_def in_range_def)

lemma isdecimal_isdigit: "py_isdecimal c \<Longrightarrow> py_isdigit c"
  by (simp add: py_isdecimal_def py_isdigit_def)

lemma Phone_eq:
  "Phone s = (if length s = 10 \<and> list_all py_isdigit s then Inr \<lparr>phone_value = s\<rparr>
              else Inl (ValueError (str_of ''Phone number must be a string of 10 digits.'')))"
  by (auto simp: Phone_def str_isdigit_def)

text \<open>
  Claim C4, as the code has it. \<open>Phone s\<close> raises the \<^verbatim>\<open>ValueError\<close> of the
  validation when \<open>s\<close> has a length other than 10 or holds a character that
  \<^verbatim>\<open>str.isdigit\<close> rejects, and stores \<open>s\<close> itself when \<open>s\<close> is ten characters that
  \<^verbatim>\<open>isdigit\<close> accepts; ten ASCII digits are such a string, and below code point
  128 the ASCII digits are the only characters \<^verbatim>\<open>isdigit\<close> accepts.
\<close>

theorem Phone_validation:
  "(length s \<noteq> 10 \<or> (\<exists>c\<in>set s. \<not> py_isdigit c) \<longrightarrow>
      Phone s = Inl (ValueError (str_of ''Phone number must be a string of 10 digits.'')))
   \<and> (length s = 10 \<and> (\<forall>c\<in>set s. py_isdigit c) \<longrightarrow> Phone s = Inr \<lparr>phone_value = s\<rparr>)
   \<and> (length s = 10 \<and> (\<forall>c\<in>set s. ascii_digit c) \<longrightarrow> Phone s = Inr \<lparr>phone_value = s\<rparr>)
   \<and> (\<forall>c\<in>set s. c < 128 \<and> \<not> ascii_digit c \<longrightarrow> \<not> py_isdigit c)"
  by (auto simp: Phone_eq list_all_iff dest: isdigit_below_128 ascii_digit_isdigit)

text \<open>
  The theorem at three inputs: ten digits, five digits, and ten characters with letters.
\<close>

theorem Phone_validation_witness:
  "Phone (str_of ''1234567890'') = Inr \<lparr>phone_value = str_of ''1234567890''\<rparr>
   \<and> Phone (str_of ''12345'') = Inl (ValueError (str_of ''Phone number must be a string of 10 digits.''))
   \<and> Phone (str_of ''12345abcde'') = Inl (ValueError (str_of ''Phone number must be a string of 10 digits.''))"
proof -
  have a: "length (str_of ''1234567890'') = 10 \<and> (\<forall>c\<in>set (str_of ''1234567890''). ascii_digit c)"
    by (simp add: str_of_def ascii_digit_def)
  have b: "length (str_of ''12345'') \<noteq> 10" by (simp add: str_of_def)
  have c: "\<exists>c\<in>set (str_of ''12345abcde''). \<not> py_isdigit c"
  proof -
    have "\<not> py_isdigit 97"
      using Phone_validation [of "str_of ''12345abcde''"] by (simp add: str_of_def ascii_digit_def)
    then show ?thesis by (simp add: str_of_def)
  qed
  show ?thesis
    using a b c Phone_validation [of "str_of ''1234567890''"]
      Phone_validation [of "str_of ''12345''"] Phone_validation [of "str_of ''12345abcde''"]
    by blast
qed

text \<open>
  Claim C4 as stated fails: the string of ten characters U+00B2 (superscript two)
  holds characters that are not decimal digits, and \<open>Phone\<close> accepts it, since
  \<^verbatim>\<open>str.isdigit\<close> is true of the superscript digits.
\<close>

theorem Phone_superscript_counterexample:
  "178 \<in> set (replicate 10 (178::nat)) \<and> \<not> ascii_digit 178 \<and> \<not> py_isdecimal 178
   \<and> Phone (replicate 10 178) = Inr \<lparr>phone_value = replicate 10 178\<rparr>"
  by (simp add: Phone_def str_isdigit_def ascii_digit_def py_isdecimal_def py_isdigit_def
      decimal_ranges_def digit_only_ranges_def in_range_def list_all_iff)

subsection \<open>Editing and finding phones\<close>

lemma find_phone_loop_None: "find_phone_loop ps n = None \<longleftrightarrow> (\<forall>p\<in>set ps. phone_value p \<noteq> n)"
  by (induction ps) auto

lemma find_phone_loop_Some: "find_phone_loop ps n = Some p \<Longrightarrow> p = \<lparr>phone_value = n\<rparr>"
  by (induction ps) (auto split: if_splits)

lemma edit_phone_loop_absent:
  "\<forall>p\<in>set ps. phone_value p \<noteq> old_phone \<Longrightarrow> edit_phone_loop ps old_phone new_phone = Inr ps"
  by (induction ps) auto

text \<open>
  Claim C7. When no phone of the record has the value \<open>old_phone\<close>, \<open>edit_phone\<close>
  raises nothing and returns the record as it was, whatever \<open>new_phone\<close> is:
  \<^verbatim>\<open>Phone(new_phone)\<close> is only built once a match is found.
\<close>

theorem edit_phone_absent_noop:
  "\<forall>p\<in>set (phones r). phone_value p \<noteq> old_phone \<Longrightarrow>
     edit_phone r old_phone new_phone = (Inr (), r)"
  by (simp add: edit_phone_def edit_phone_loop_absent)

text \<open>
  The theorem on a record with two phones, for a new value that would not pass the
  validation and for one that would.
\<close>

theorem edit_phone_absent_noop_witness:
  "find_phone example_record (str_of ''0000000000'') = None
   \<and> Phone (str_of ''abc'') = Inl (ValueError (str_of ''Phone number must be a string of 10 digits.''))
   \<and> edit_phone example_record (str_of ''0000000000'') (str_of ''abc'') = (Inr (), example_record)
   \<and> edit_phone example_record (str_of ''0000000000'') (str_of ''9876543210'') = (Inr (), example_record)"
proof -
  have h: "\<forall>p\<in>set (phones example_record). phone_value p \<noteq> str_of ''0000000000''"
    by (simp add: example_record_def str_of_def)
  have f: "find_phone example_record (str_of ''0000000000'') = None"
    using h by (simp add: find_phone_def find_phone_loop_None)
  have "Phone (str_of ''abc'') = Inl (ValueError (str_of ''Phone number must be a string of 10 digits.''))"
    by (simp add: Phone_def str_of_def)
  then show ?thesis
    using f edit_phone_absent_noop [OF h, of "str_of ''abc''"]
      edit_phone_absent_noop [OF h, of "str_of ''9876543210''"]
    by simp
qed

lemma edit_phone_loop_present:
  "\<exists>p\<in>set ps. phone_value p = old_phone \<Longrightarrow> Phone new_phone = Inr q \<Longrightarrow>
   \<exists>i<length ps. phone_value (ps ! i) = old_phone \<and> (\<forall>j<i. phone_value (ps ! j) \<noteq> old_phone)
      \<and> edit_phone_loop ps old_phone new_phone = Inr (ps[i := \<lparr>phone_value = new_phone\<rparr>])"
proof (induction ps)
  case Nil
  then show ?case by simp
next
  case (Cons p ps)
  have q: "phone_value q = new_phone"
    using Cons.prems(2) by (auto simp: Phone_def split: if_splits)
  show ?case
  proof (cases "phone_value p = old_phone")
    case True
    with Cons.prems(2) q have "edit_phone_loop (p # ps) old_phone new_phone = Inr ((p # ps)[0 := \<lparr>phone_value = new_phone\<rparr>])"
      by simp
    with True show ?thesis by (intro exI [of _ 0]) simp
  next
    case False
    with Cons.prems have "\<exists>p\<in>set ps. phone_value p = old_phone" by auto
    from Cons.IH [OF this Cons.prems(2)] obtain i where i: "i < length ps"
      "phone_value (ps ! i) = old_phone" "\<forall>j<i. phone_value (ps ! j) \<noteq> old_phone"
      "edit_phone_loop ps old_phone new_phone = Inr (ps[i := \<lparr>phone_value = new_phone\<rparr>])"
      by blast
    have "\<forall>j<Suc i. phone_value ((p # ps) ! j) \<noteq> old_phone"
      using False i(3) by (auto simp: nth_Cons split: nat.splits)
    with i False show ?thesis
      by (intro exI [of _ "Suc i"]) simp
  qed
qed

lemma find_phone_loop_update_new:
  "i < length ps \<Longrightarrow> find_phone_loop (ps[i := \<lparr>phone_value = n\<rparr>]) n = Some \<lparr>phone_value = n\<rparr>"
proof -
  assume "i < length ps"
  then have "\<lparr>phone_value = n\<rparr> \<in> set (ps[i := \<lparr>phone_value = n\<rparr>])"
    by (simp add: set_update_memI)
  then have "\<exists>p\<in>set (ps[i := \<lparr>phone_value = n\<rparr>]). phone_value p = n"
    by (rule bexI [rotated]) simp
  then have "find_phone_loop (ps[i := \<lparr>phone_value = n\<rparr>]) n \<noteq> None"
    by (simp add: find_phone_loop_None)
  then show ?thesis
    using find_phone_loop_Some by (cases "find_phone_loop (ps[i := \<lparr>phone_value = n\<rparr>]) n") auto
qed

lemma find_phone_loop_update_old:
  assumes "i < length ps"
  shows "find_phone_loop (ps[i := \<lparr>phone_value = n\<rparr>]) old = None \<longleftrightarrow>
           n \<noteq> old \<and> (\<forall>j<length ps. j \<noteq> i \<longrightarrow> phone_value (ps ! j) \<noteq> old)"
proof -
  have "find_phone_loop (ps[i := \<lparr>phone_value = n\<rparr>]) old = None \<longleftrightarrow>
          (\<forall>j<length ps. phone_value ((ps[i := \<lparr>phone_value = n\<rparr>]) ! j) \<noteq> old)"
    by (simp add: find_phone_loop_None all_set_conv_all_nth)
  also have "\<dots> \<longleftrightarrow> n \<noteq> old \<and> (\<forall>j<length ps. j \<noteq> i \<longrightarrow> phone_value (ps ! j) \<noteq> old)"
    using assms by (auto simp: nth_list_update)
  finally show ?thesis .
qed

text \<open>
  Claim C6, as the code has it. When some phone has the value \<open>old_phone\<close> and
  \<open>new_phone\<close> passes the validation, \<open>edit_phone\<close> succeeds and the phone list is
  the old one with the entry at the first matching index \<open>i\<close> replaced (so its length
  and every other position are unchanged); afterwards \<open>find_phone\<close> finds the new
  number, and it finds no phone of the old value exactly when the new value differs
  from the old one and no other entry held the old value.
\<close>

theorem edit_phone_replaces_first:
  assumes "\<exists>p\<in>set (phones r). phone_value p = old_phone" and "Phone new_phone = Inr q"
  shows "\<exists>i<length (phones r).
           phone_value (phones r ! i) = old_phone
           \<and> (\<forall>j<i. phone_value (phones r ! j) \<noteq> old_phone)
           \<and> edit_phone r old_phone new_phone =
               (Inr (), r\<lparr>phones := (phones r)[i := \<lparr>phone_value = new_phone\<rparr>]\<rparr>)
           \<and> find_phone (snd (edit_phone r old_phone new_phone)) new_phone =
               Some \<lparr>phone_value = new_phone\<rparr>
           \<and> (find_phone (snd (edit_phone r old_phone new_phone)) old_phone = None \<longleftrightarrow>
                new_phone \<noteq> old_phone
                \<and> (\<forall>j<length (phones r). j \<noteq> i \<longrightarrow> phone_value (phones r ! j) \<noteq> old_phone))"
proof -
  from edit_phone_loop_present [OF assms] obtain i where i: "i < length (phones r)"
    "phone_value (phones r ! i) = old_phone" "\<forall>j<i. phone_value (phones r ! j) \<noteq> old_phone"
    "edit_phone_loop (phones r) old_phone new_phone = Inr ((phones r)[i := \<lparr>phone_value = new_phone\<rparr>])"
    by blast
  have e: "edit_phone r old_phone new_phone =
             (Inr (), r\<lparr>phones := (phones r)[i := \<lparr>phone_value = new_phone\<rparr>]\<rparr>)"
    by (simp add: edit_phone_def i(4))
  show ?thesis
    using i(1,2,3) e
    by (intro exI [of _ i])
      (simp add: find_phone_def find_phone_loop_update_new find_phone_loop_update_old)
qed

text \<open>
  The theorem on a record with two different phones, the first of which is edited.
\<close>

theorem edit_phone_replaces_first_witness:
  "edit_phone example_record (str_of ''1234567890'') (str_of ''9876543210'') =
     (Inr (), example_record\<lparr>phones :=
        [\<lparr>phone_value = str_of ''9876543210''\<rparr>, \<lparr>phone_value = str_of ''5550001111''\<rparr>]\<rparr>)
   \<and> find_phone (snd (edit_phone example_record (str_of ''1234567890'') (str_of ''9876543210'')))
         (str_of ''9876543210'') = Some \<lparr>phone_value = str_of ''9876543210''\<rparr>
   \<and> find_phone (snd (edit_phone example_record (str_of ''1234567890'') (str_of ''9876543210'')))
         (str_of ''1234567890'') = None"
proof -
  have a: "\<exists>p\<in>set (phones example_record). phone_value p = str_of ''1234567890''"
    by (simp add: example_record_def)
  have b: "Phone (str_of ''9876543210'') = Inr \<lparr>phone_value = str_of ''9876543210''\<rparr>"
    by (simp add: Phone_eq str_of_def list_all_iff ascii_digit_isdigit ascii_digit_def)
  have c: "edit_phone example_record (str_of ''1234567890'') (str_of ''9876543210'') =
     (Inr (), example_record\<lparr>phones :=
        [\<lparr>phone_value = str_of ''9876543210''\<rparr>, \<lparr>phone_value = str_of ''5550001111''\<rparr>]\<rparr>)"
    by (simp add: edit_phone_def example_record_def b)
  have d: "find_phone (snd (edit_phone example_record (str_of ''1234567890'') (str_of ''9876543210'')))
         (str_of ''1234567890'') = None"
    unfolding c by (simp add: find_phone_def str_of_def)
  from edit_phone_replaces_first [OF a b] c d show ?thesis by blast
qed

text \<open>
  Claim C6 as stated fails where it says that the old value is no longer found: a record
  may hold the same number twice, \<open>edit_phone\<close> replaces the first entry only, and
  \<open>find_phone\<close> then returns the second.
\<close>

theorem edit_phone_duplicate_counterexample:
  "find_phone duplicate_record (str_of ''1234567890'') = Some \<lparr>phone_value = str_of ''1234567890''\<rparr>
   \<and> Phone (str_of ''9876543210'') = Inr \<lparr>phone_value = str_of ''9876543210''\<rparr>
   \<and> edit_phone duplicate_record (str_of ''1234567890'') (str_of ''9876543210'') =
       (Inr (), duplicate_record\<lparr>phones :=
          [\<lparr>phone_value = str_of ''9876543210''\<rparr>, \<lparr>phone_value = str_of ''1234567890''\<rparr>]\<rparr>)
   \<and> find_phone (snd (edit_phone duplicate_record (str_of ''1234567890'') (str_of ''9876543210'')))
       (str_of ''1234567890'') = Some \<lparr>phone_value = str_of ''1234567890''\<rparr>"
proof -
  have b: "Phone (str_of ''9876543210'') = Inr \<lparr>phone_value = str_of ''9876543210''\<rparr>"
    by (simp add: Phone_eq str_of_def list_all_iff ascii_digit_isdigit ascii_digit_def)
  show ?thesis
    by (simp add: b edit_phone_def find_phone_def duplicate_record_def)
qed

subsection \<open>One birthday per record\<close>

text \<open>
  Claim C8. On a record whose birthday is set, \<open>add_birthday\<close> with any \<^verbatim>\<open>Birthday\<close>
  raises the \<^verbatim>\<open>ValueError\<close> "Only one birthday allowed per record." and leaves the
  record as it was; and no call of \<open>add_birthday\<close>, \<open>add_phone\<close> or \<open>edit_phone\<close>,
  with any argument, changes a birthday that is set.
\<close>

theorem add_birthday_second_fails:
  "birthday r = Some b0 \<Longrightarrow>
     add_birthday r (BirthdayObj b) =
       (Inl (ValueError (str_of ''Only one birthday allowed per record.'')), r)
     \<and> (\<forall>v. birthday (snd (add_birthday r v)) = Some b0)
     \<and> (\<forall>p. birthday (snd (add_phone r p)) = Some b0)
     \<and> (\<forall>old_phone new_phone. birthday (snd (edit_phone r old_phone new_phone)) = Some b0)"
  by (auto simp: add_birthday_def add_phone_def edit_phone_def split: pyobj.splits sum.splits)

text \<open>
  The theorem on a record born 15.06.1990, offered a second birthday.
\<close>

theorem add_birthday_second_fails_witness:
  "birthday birthday_record \<noteq> None
   \<and> add_birthday birthday_record
       (BirthdayObj \<lparr>birthday_value = str_of ''29.02.2024'',
                      date_value = \<lparr>year = 2024, month = 2, day = 29\<rparr>\<rparr>) =
       (Inl (ValueError (str_of ''Only one birthday allowed per record.'')), birthday_record)"
proof -
  have h: "birthday birthday_record = Some \<lparr>birthday_value = str_of ''15.06.1990'',
                        date_value = \<lparr>year = 1990, month = 6, day = 15\<rparr>\<rparr>"
    by (simp add: birthday_record_def)
  show ?thesis
    using h add_birthday_second_fails [OF h] by simp
qed

subsection \<open>The address book\<close>

lemma dict_get_dict_set: "dict_get (dict_set k v d) k' = (if k' = k then Some v else dict_get d k')"
  by (induction d) auto

lemma map_fst_dict_set_present:
  "dict_get d k = Some v0 \<Longrightarrow> map fst (dict_set k v d) = map fst d"
  by (induction d) (auto split: if_splits)

lemma set_map_fst_dict_set: "set (map fst (dict_set k v d)) = insert k (set (map fst d))"
  by (induction k v d rule: dict_set.induct) (simp_all add: insert_commute)

lemma distinct_dict_set: "distinct (map fst d) \<Longrightarrow> distinct (map fst (dict_set k v d))"
proof (induction d)
  case Nil
  then show ?case by simp
next
  case (Cons a d)
  obtain k' v' where a: "a = (k', v')" by (cases a)
  show ?case
  proof (cases "k' = k")
    case True
    with Cons.prems a show ?thesis by simp
  next
    case False
    have "k' \<notin> set (map fst (dict_set k v d))"
      using Cons.prems a False unfolding set_map_fst_dict_set by simp
    with Cons a False show ?thesis by simp
  qed
qed

lemma dict_set_dict_set: "dict_set k v (dict_set k v' d) = dict_set k v d"
  by (induction d) auto

lemma set_dict_set: "set (dict_set k v d) \<subseteq> insert (k, v) {kv \<in> set d. fst kv \<noteq> k}"
  if "distinct (map fst d)"
  using that
proof (induction d)
  case Nil
  then show ?case by simp
next
  case (Cons a d)
  obtain k' v' where a: "a = (k', v')" by (cases a)
  show ?case
  proof (cases "k' = k")
    case True
    with Cons.prems a show ?thesis by (auto simp: image_iff)
  next
    case False
    with Cons a show ?thesis by auto
  qed
qed

lemma keys_match_dict_set: "keys_match d \<Longrightarrow> k = name v \<Longrightarrow> keys_match (dict_set k v d)"
  unfolding keys_match_def by (induction d) auto

lemma keys_match_empty: "keys_match []"
  by (simp add: keys_match_def)

lemma keys_match_delete_record: "keys_match book \<Longrightarrow> keys_match (delete_record n book)"
  by (simp add: keys_match_def delete_record_def list_all_iff)

text \<open>
  Claim C9. When the name of \<open>r\<close> is a key of the book, \<open>add_record r\<close> makes \<open>find\<close>
  of that name return \<open>r\<close>, leaves every other name and the order of the keys as
  they were, and gives a book that does not depend on the record that was stored
  under the name; when keys are unique and equal the names of their records, the old
  record is no value of the new book (unless it equals \<open>r\<close>). \<open>add_record\<close> keeps
  the keys unique and equal to the names of their records.
\<close>

theorem add_record_overwrites:
  assumes "find_record (name r) book = Some old"
  shows "find_record (name r) (add_record r book) = Some r
    \<and> (\<forall>n. n \<noteq> name r \<longrightarrow> find_record n (add_record r book) = find_record n book)
    \<and> map fst (add_record r book) = map fst book
    \<and> (\<forall>old'. add_record r (dict_set (name r) old' book) = add_record r book)
    \<and> (keys_match book \<and> distinct (map fst book) \<and> old \<noteq> r \<longrightarrow>
          old \<notin> set (dict_values (add_record r book)))
    \<and> (keys_match book \<longrightarrow> keys_match (add_record r book))
    \<and> (distinct (map fst book) \<longrightarrow> distinct (map fst (add_record r book)))"
proof -
  have "old \<notin> set (dict_values (add_record r book))"
    if km: "keys_match book" and d: "distinct (map fst book)" and ne: "old \<noteq> r"
  proof
    assume "old \<in> set (dict_values (add_record r book))"
    then obtain k where k: "(k, old) \<in> set (dict_set (name r) r book)"
      by (auto simp: dict_values_def add_record_def)
    with set_dict_set [OF d, of "name r" r] ne have kin: "(k, old) \<in> set book" and kne: "k \<noteq> name r"
      by auto
    from assms have rin: "(name r, old) \<in> set book"
      unfolding find_record_def by (induction book) (auto split: if_splits)
    from km have all: "\<forall>kv\<in>set book. fst kv = name (snd kv)"
      by (simp add: keys_match_def list_all_iff)
    from bspec [OF all kin] bspec [OF all rin] kne show False by simp
  qed
  moreover have "find_record (name r) (add_record r book) = Some r"
    by (simp add: find_record_def add_record_def dict_get_dict_set)
  moreover have "\<forall>n. n \<noteq> name r \<longrightarrow> find_record n (add_record r book) = find_record n book"
    by (simp add: find_record_def add_record_def dict_get_dict_set)
  moreover have "map fst (add_record r book) = map fst book"
    using assms unfolding find_record_def add_record_def by (rule map_fst_dict_set_present)
  moreover have "\<forall>old'. add_record r (dict_set (name r) old' book) = add_record r book"
    by (simp add: add_record_def dict_set_dict_set)
  moreover have "keys_match book \<longrightarrow> keys_match (add_record r book)"
    by (simp add: add_record_def keys_match_dict_set)
  moreover have "distinct (map fst book) \<longrightarrow> distinct (map fst (add_record r book))"
    by (simp add: add_record_def distinct_dict_set)
  ultimately show ?thesis by blast
qed

text \<open>
  The theorem on a book of two records, the second overwritten by a fresh record.
\<close>

theorem add_record_overwrites_witness:
  "find_record (str_of ''Bob'') example_book = Some example_record
   \<and> find_record (str_of ''Bob'') (add_record (Record (str_of ''Bob'')) example_book) =
       Some \<lparr>name = str_of ''Bob'', phones = [], birthday = None\<rparr>
   \<and> example_record \<notin> set (dict_values (add_record (Record (str_of ''Bob'')) example_book))
   \<and> keys_match (add_record (Record (str_of ''Bob'')) example_book)"
proof -
  have n: "name (Record (str_of ''Bob'')) = str_of ''Bob''"
    by (simp add: Record_def)
  have h: "find_record (name (Record (str_of ''Bob''))) example_book = Some example_record"
    by (simp add: find_record_def example_book_def str_of_def Record_def)
  have km: "keys_match example_book"
    by (simp add: keys_match_def example_book_def birthday_record_def example_record_def)
  have d: "distinct (map fst example_book)"
    by (simp add: example_book_def str_of_def)
  have ne: "example_record \<noteq> Record (str_of ''Bob'')"
    by (simp add: example_record_def Record_def)
  from add_record_overwrites [OF h] h km d ne show ?thesis
    by (simp add: n Record_def)
qed

subsection \<open>Adding a contact\<close>

text \<open>
  Claim C10, as the code has it. When the name is not in the book and the phone is a
  non-empty string that fails the validation of \<open>Phone\<close>, \<open>add_contact\<close> returns the
  message of the \<^verbatim>\<open>ValueError\<close>, and the book holds a new record of that name with
  no phones.
\<close>

theorem add_contact_invalid_phone_keeps_record:
  assumes "find_record n book = None" and "phone \<noteq> []" and "Phone phone = Inl e"
  shows "add_contact (n # phone # rest) book =
           (Inr (str_of ''Phone number must be a string of 10 digits.''), add_record (Record n) book)
         \<and> find_record n (add_record (Record n) book) =
             Some \<lparr>name = n, phones = [], birthday = None\<rparr>"
proof -
  have e: "e = ValueError (str_of ''Phone number must be a string of 10 digits.'')"
    using assms(3) by (simp add: Phone_def split: if_splits)
  have s: "dict_set n (Record n) (dict_set n (Record n) book) = dict_set n (Record n) book"
    by (rule dict_set_dict_set)
  have "add_contact_body (n # phone # rest) book = (Inl e, add_record (Record n) book)"
    using assms by (simp add: add_contact_body_def add_phone_def add_record_def Record_def s [unfolded Record_def])
  then show ?thesis
    by (simp add: add_contact_def input_error_def e find_record_def add_record_def
        dict_get_dict_set Record_def)
qed

text \<open>
  The theorem for the command \<^verbatim>\<open>add Bob 12ab\<close> on the empty book.
\<close>

theorem add_contact_invalid_phone_keeps_record_witness:
  "add_contact [str_of ''Bob'', str_of ''12ab''] [] =
     (Inr (str_of ''Phone number must be a string of 10 digits.''),
      [(str_of ''Bob'', \<lparr>name = str_of ''Bob'', phones = [], birthday = None\<rparr>)])"
proof -
  have a: "find_record (str_of ''Bob'') [] = None" by (simp add: find_record_def)
  have b: "str_of ''12ab'' \<noteq> []" by (simp add: str_of_def)
  have c: "Phone (str_of ''12ab'') = Inl (ValueError (str_of ''Phone number must be a string of 10 digits.''))"
    by (simp add: Phone_def str_of_def)
  from add_contact_invalid_phone_keeps_record [OF a b c, of "[]"] show ?thesis
    by (simp add: add_record_def Record_def)
qed

text \<open>
  Claim C10 as stated fails for the empty string: it fails the validation of \<open>Phone\<close>,
  but the guard \<^verbatim>\<open>if phone:\<close> skips \<^verbatim>\<open>add_phone\<close>, and the command returns
  "Contact added." and no error message.
\<close>

theorem add_contact_empty_phone_counterexample:
  "find_record (str_of ''Bob'') [] = None
   \<and> Phone [] = Inl (ValueError (str_of ''Phone number must be a string of 10 digits.''))
   \<and> add_contact [str_of ''Bob'', []] [] =
       (Inr (str_of ''Contact added.''),
        [(str_of ''Bob'', \<lparr>name = str_of ''Bob'', phones = [], birthday = None\<rparr>)])
   \<and> str_of ''Contact added.'' \<noteq> str_of ''Phone number must be a string of 10 digits.''"
  by (simp add: find_record_def Phone_def str_isdigit_def add_contact_def add_contact_body_def
      input_error_def add_record_def Record_def str_of_def)

subsection \<open>Calendar arithmetic\<close>

lemma new_date_Inr:
  "new_date y m d = Inr x \<longleftrightarrow> valid_date \<lparr>year = y, month = m, day = d\<rparr> \<and> x = \<lparr>year = y, month = m, day = d\<rparr>"
  by (auto simp: new_date_def valid_date_def)

lemma replace_year_Inr:
  "replace_year d y = Inr x \<longleftrightarrow>
     valid_date \<lparr>year = y, month = month d, day = day d\<rparr> \<and> x = \<lparr>year = y, month = month d, day = day d\<rparr>"
  by (simp add: replace_year_def new_date_Inr)

lemma occurrence_Inr:
  assumes "occurrence today b = Inr occ"
  shows "occ = spec_occurrence today b \<and> valid_date occ"
proof -
  from assms obtain x where x: "replace_year b (year today) = Inr x"
    by (auto simp: occurrence_def split: sum.splits)
  then have xe: "x = \<lparr>year = year today, month = month b, day = day b\<rparr>" and xv: "valid_date x"
    by (auto simp: replace_year_Inr)
  show ?thesis
  proof (cases "date_less x today")
    case True
    with assms x have "replace_year x (year today + 1) = Inr occ"
      by (simp add: occurrence_def)
    with True xe show ?thesis
      by (auto simp: replace_year_Inr spec_occurrence_def)
  next
    case False
    with assms x have "occ = x" by (simp add: occurrence_def)
    with False xe xv show ?thesis by (simp add: spec_occurrence_def)
  qed
qed

lemma month_cases:
  "1 \<le> m \<Longrightarrow> m \<le> 12 \<Longrightarrow>
     m = 1 \<or> m = 2 \<or> m = 3 \<or> m = 4 \<or> m = 5 \<or> m = 6 \<or> m = 7 \<or> m = 8 \<or> m = 9 \<or> m = 10 \<or> m = 11 \<or> m = (12::int)"
  by arith

lemma days_before_next_month:
  "1 \<le> m \<Longrightarrow> m < 12 \<Longrightarrow> days_before_month y (m + 1) = days_before_month y m + days_in_month y m"
  using month_cases [of m]
  by (auto simp: days_before_month_def days_in_month_def DAYS_BEFORE_MONTH_def DAYS_IN_MONTH_def)

lemma days_in_december: "days_in_month y 12 = 31"
  by (simp add: days_in_month_def DAYS_IN_MONTH_def)

lemma div_step:
  fixes y k :: int
  assumes "0 < k"
  shows "y div k = (y - 1) div k + (if y mod k = 0 then 1 else 0)"
proof (cases "y mod k = 0")
  case True
  have "y = k * (y div k)"
    using True mult_div_mod_eq [of k y] by simp
  then have "y - 1 = k * (y div k - 1) + (k - 1)"
    by (simp add: algebra_simps)
  from int_div_pos_eq [OF this] assms have "(y - 1) div k = y div k - 1"
    by simp
  with True show ?thesis by simp
next
  case False
  have "0 \<le> y mod k" "y mod k < k" using assms by simp_all
  with False have r: "0 \<le> y mod k - 1" "y mod k - 1 < k" by simp_all
  have "y - 1 = k * (y div k) + (y mod k - 1)"
    using mult_div_mod_eq [of k y] by simp
  from int_div_pos_eq [OF this r] have "(y - 1) div k = y div k" .
  with False show ?thesis by simp
qed

lemma mod_100_400: "(y::int) mod 400 = 0 \<Longrightarrow> y mod 100 = 0"
proof -
  assume "y mod 400 = 0"
  then have "400 dvd y" by (simp add: mod_eq_0_iff_dvd)
  moreover have "(100::int) dvd 400" by simp
  ultimately have "100 dvd y" by (rule dvd_trans [rotated])
  then show ?thesis by (simp add: mod_eq_0_iff_dvd)
qed

lemma mod_4_100: "(y::int) mod 100 = 0 \<Longrightarrow> y mod 4 = 0"
proof -
  assume "y mod 100 = 0"
  then have "100 dvd y" by (simp add: mod_eq_0_iff_dvd)
  moreover have "(4::int) dvd 100" by simp
  ultimately have "4 dvd y" by (rule dvd_trans [rotated])
  then show ?thesis by (simp add: mod_eq_0_iff_dvd)
qed

lemma days_before_next_year:
  "days_before_year (y + 1) = days_before_year y + (if is_leap y then 366 else 365)"
proof -
  define p4 p100 p400 where "p4 = (y - 1) div 4" and "p100 = (y - 1) div 100" and "p400 = (y - 1) div 400"
  define q4 q100 q400 where "q4 = y div 4" and "q100 = y div 100" and "q400 = y div 400"
  define m4 m100 m400 where "m4 \<longleftrightarrow> y mod 4 = 0" and "m100 \<longleftrightarrow> y mod 100 = 0"
    and "m400 \<longleftrightarrow> y mod 400 = 0"
  have a: "q4 = p4 + (if m4 then 1 else 0)"
    unfolding q4_def p4_def m4_def by (rule div_step) simp
  have b: "q100 = p100 + (if m100 then 1 else 0)"
    unfolding q100_def p100_def m100_def by (rule div_step) simp
  have c: "q400 = p400 + (if m400 then 1 else 0)"
    unfolding q400_def p400_def m400_def by (rule div_step) simp
  have d: "m400 \<longrightarrow> m100" "m100 \<longrightarrow> m4"
    unfolding m4_def m100_def m400_def using mod_100_400 [of y] mod_4_100 [of y] by blast+
  have l: "is_leap y \<longleftrightarrow> m4 \<and> (\<not> m100 \<or> m400)"
    unfolding is_leap_def m4_def m100_def m400_def ..
  have n: "days_before_year (y + 1) = y * 365 + q4 - q100 + q400"
    unfolding days_before_year_def q4_def q100_def q400_def by simp
  have o: "days_before_year y = (y - 1) * 365 + p4 - p100 + p400"
    unfolding days_before_year_def p4_def p100_def p400_def Let_def ..
  show ?thesis
    unfolding n o l a b c using d by (cases m4; cases m100; cases m400) (simp_all add: algebra_simps)
qed

lemma next_day_toordinal:
  assumes "valid_date d"
  shows "toordinal (next_day d) = toordinal d + 1"
proof (cases "day d < days_in_month (year d) (month d)")
  case True
  then show ?thesis by (simp add: next_day_def toordinal_def)
next
  case False
  with assms have dd: "day d = days_in_month (year d) (month d)"
    by (simp add: valid_date_def)
  show ?thesis
  proof (cases "month d < 12")
    case True
    with assms have "days_before_month (year d) (month d + 1) =
        days_before_month (year d) (month d) + days_in_month (year d) (month d)"
      by (intro days_before_next_month) (simp_all add: valid_date_def)
    moreover have "days_before_month (year d) (month d + 1) \<ge> 0 \<Longrightarrow> True" by simp
    ultimately show ?thesis
      using True False dd by (simp add: next_day_def toordinal_def)
  next
    case False
    with assms have m: "month d = 12" by (simp add: valid_date_def)
    have "days_before_month (year d) 12 = 334 + (if is_leap (year d) then 1 else 0)"
      by (simp add: days_before_month_def DAYS_BEFORE_MONTH_def)
    moreover have "days_before_month (year d + 1) 1 = 0"
      by (simp add: days_before_month_def DAYS_BEFORE_MONTH_def)
    ultimately show ?thesis
      using m dd days_in_december [of "year d"] days_before_next_year [of "year d"]
      by (simp add: next_day_def toordinal_def)
  qed
qed

lemma days_in_month_pos: "1 \<le> m \<Longrightarrow> m \<le> 12 \<Longrightarrow> 28 \<le> days_in_month y m"
  using month_cases [of m] by (auto simp: days_in_month_def DAYS_IN_MONTH_def)

lemma next_day_valid:
  assumes "valid_date d" and "year (next_day d) \<le> 9999"
  shows "valid_date (next_day d)"
proof (cases "day d < days_in_month (year d) (month d)")
  case True
  with assms show ?thesis by (simp add: next_day_def valid_date_def)
next
  case False
  show ?thesis
  proof (cases "month d < 12")
    case True
    with assms have "28 \<le> days_in_month (year d) (month d + 1)"
      by (intro days_in_month_pos) (simp_all add: valid_date_def)
    with True False assms show ?thesis by (simp add: next_day_def valid_date_def)
  next
    case m: False
    have "28 \<le> days_in_month (year d + 1) 1" by (intro days_in_month_pos) simp_all
    with m False assms show ?thesis by (simp add: next_day_def valid_date_def)
  qed
qed

lemma year_next_day: "year d \<le> year (next_day d)"
  by (simp add: next_day_def)

lemma add_days_Inr:
  assumes "valid_date d" and "add_days d n = Inr c"
  shows "c = (next_day ^^ n) d \<and> valid_date c \<and> toordinal c = toordinal d + int n"
proof -
  from assms(2) have c: "c = (next_day ^^ n) d" and y: "year ((next_day ^^ n) d) \<le> 9999"
    by (auto simp: add_days_def Let_def split: if_splits)
  have "valid_date ((next_day ^^ k) d) \<and> toordinal ((next_day ^^ k) d) = toordinal d + int k"
    if "year ((next_day ^^ k) d) \<le> 9999" for k
    using that
  proof (induction k)
    case 0
    with assms(1) show ?case by simp
  next
    case (Suc k)
    have "year ((next_day ^^ k) d) \<le> year ((next_day ^^ Suc k) d)"
      by (simp add: year_next_day)
    with Suc.prems have "year ((next_day ^^ k) d) \<le> 9999" by simp
    with Suc.IH have v: "valid_date ((next_day ^^ k) d)"
      and t: "toordinal ((next_day ^^ k) d) = toordinal d + int k" by simp_all
    from next_day_valid [OF v] Suc.prems next_day_toordinal [OF v] t show ?case by simp
  qed
  with c y show ?thesis by simp
qed

lemma congratulation_Inr:
  assumes "valid_date occ" and "congratulation occ = Inr c"
  shows "c = (next_day ^^ spec_shift (weekday occ)) occ \<and> valid_date c
         \<and> toordinal c = toordinal occ + int (spec_shift (weekday occ))"
proof (cases "weekday occ = 5")
  case True
  with assms(2) have "add_days occ 2 = Inr c" by (simp add: congratulation_def)
  from add_days_Inr [OF assms(1) this] True show ?thesis by (auto simp: spec_shift_def)
next
  case n5: False
  show ?thesis
  proof (cases "weekday occ = 6")
    case True
    with assms(2) have "add_days occ 1 = Inr c" by (simp add: congratulation_def)
    from add_days_Inr [OF assms(1) this] True n5 show ?thesis by (auto simp: spec_shift_def)
  next
    case False
    with n5 assms show ?thesis by (simp add: congratulation_def spec_shift_def)
  qed
qed

subsection \<open>The loop of get_upcoming_birthdays\<close>

lemma record_entry_Inr:
  assumes "record_entry today r = Inr es"
  shows "es = (if spec_included today r then [spec_entry today r] else [])"
proof (cases "birthday r")
  case None
  with assms show ?thesis by (simp add: record_entry_def spec_included_def)
next
  case (Some b)
  with assms obtain occ where occ: "occurrence today (date_value b) = Inr occ"
    by (auto simp: record_entry_def split: sum.splits)
  from occurrence_Inr [OF occ] have oe: "occ = spec_occurrence today (date_value b)" and ov: "valid_date occ"
    by blast+
  have d: "days_between occ today = spec_days_until today (date_value b)"
    by (simp add: days_between_def spec_days_until_def oe)
  show ?thesis
  proof (cases "spec_included today r")
    case True
    with Some d have w: "0 \<le> days_between occ today \<and> days_between occ today \<le> 7"
      by (simp add: spec_included_def)
    with assms Some occ obtain c where c: "congratulation occ = Inr c"
      and es: "es = [\<lparr>entry_name = name r, congratulation_date = strftime_Ymd c\<rparr>]"
      by (auto simp: record_entry_def Let_def split: sum.splits)
    from congratulation_Inr [OF ov c] have "c = spec_congratulation today (date_value b)"
      by (simp add: spec_congratulation_def oe)
    with True es Some show ?thesis by (simp add: spec_entry_def)
  next
    case False
    with Some d have "\<not> (0 \<le> days_between occ today \<and> days_between occ today \<le> 7)"
      by (simp add: spec_included_def)
    with assms Some occ False show ?thesis
      by (simp add: record_entry_def Let_def)
  qed
qed

lemma upcoming_loop_Inr:
  "upcoming_loop today rs acc = Inr res \<Longrightarrow>
     res = acc @ map (spec_entry today) (filter (spec_included today) rs)"
proof (induction rs arbitrary: acc)
  case Nil
  then show ?case by simp
next
  case (Cons r rs)
  from Cons.prems obtain es where es: "record_entry today r = Inr es"
    and l: "upcoming_loop today rs (acc @ es) = Inr res"
    by (auto split: sum.splits)
  from record_entry_Inr [OF es] Cons.IH [OF l] show ?case by simp
qed

lemma get_upcoming_birthdays_Inr:
  "get_upcoming_birthdays today book = Inr res \<Longrightarrow>
     res = map (spec_entry today) (filter (spec_included today) (dict_values book))"
  using upcoming_loop_Inr [of today "dict_values book" "[]" res]
  by (simp add: get_upcoming_birthdays_def)

lemmas calendar_eval =
  get_upcoming_birthdays_def dict_values_def record_entry_def occurrence_def replace_year_def
  new_date_def days_in_month_def is_leap_def DAYS_IN_MONTH_def date_less_def days_between_def
  toordinal_def days_before_year_def days_before_month_def DAYS_BEFORE_MONTH_def
  congratulation_def weekday_def add_days_def next_day_def strftime_Ymd_def str_int_def
  zero_pad_def str_of_def Let_def numeral_2_eq_2

subsection \<open>Birthdays on 29 February\<close>

lemma upcoming_loop_Inl:
  "r \<in> set rs \<Longrightarrow> record_entry today r = Inl e \<Longrightarrow> \<exists>e'. upcoming_loop today rs acc = Inl e'"
  by (induction rs arbitrary: acc) (auto split: sum.splits)

lemma leap_next_year: "is_leap y \<Longrightarrow> \<not> is_leap (y + 1)"
proof -
  assume "is_leap y"
  then have "y mod 4 = 0" by (simp add: is_leap_def)
  then have "(y + 1) mod 4 = 1" by presburger
  then show ?thesis by (simp add: is_leap_def)
qed

lemma new_date_leap_day: "\<not> is_leap y \<Longrightarrow> \<exists>e. new_date y 2 29 = Inl e"
  by (simp add: new_date_def days_in_month_def DAYS_IN_MONTH_def)

text \<open>
  Claim C1 asks that a birthday on 29 February get a well-defined date in a year that
  is not a leap year. The code does not do that: \<^verbatim>\<open>birthday.replace(year=today.year)\<close>
  raises \<^verbatim>\<open>ValueError\<close> for such a birthday, and so does the roll forward to the next
  year when today is after 29 February of a leap year. Whenever the book holds a
  record born on 29 February and the year of today is not a leap year, or 29 February
  of this year has passed, \<open>get_upcoming_birthdays\<close> raises and returns no list at all.
\<close>

theorem leap_day_birthday_raises:
  assumes "r \<in> set (dict_values book)" and "birthday r = Some b"
    and "month (date_value b) = 2" and "day (date_value b) = 29"
    and "\<not> is_leap (year today) \<or> date_less \<lparr>year = year today, month = 2, day = 29\<rparr> today"
  shows "\<exists>e. get_upcoming_birthdays today book = Inl e"
proof -
  have "\<exists>e. occurrence today (date_value b) = Inl e"
  proof (cases "is_leap (year today)")
    case False
    from new_date_leap_day [OF this] show ?thesis
      using assms(3,4) by (auto simp: occurrence_def replace_year_def)
  next
    case True
    with assms(5) have p: "date_less \<lparr>year = year today, month = 2, day = 29\<rparr> today" by simp
    from new_date_leap_day [OF leap_next_year [OF True]]
    obtain e where e: "new_date (year today + 1) 2 29 = Inl e" by blast
    show ?thesis
    proof (cases "new_date (year today) 2 29")
      case (Inl e')
      then show ?thesis using assms(3,4) by (simp add: occurrence_def replace_year_def)
    next
      case (Inr x)
      then have "x = \<lparr>year = year today, month = 2, day = 29\<rparr>"
        by (simp add: new_date_Inr)
      with Inr p e show ?thesis using assms(3,4) by (simp add: occurrence_def replace_year_def)
    qed
  qed
  then obtain e where "record_entry today r = Inl e"
    using assms(2) by (auto simp: record_entry_def)
  from upcoming_loop_Inl [OF assms(1) this] show ?thesis
    by (simp add: get_upcoming_birthdays_def)
qed

text \<open>
  The failing input: a book with one contact whose birthday is the text 29.02.2024,
  asked on 15 January 2025 and on 1 March 2024. Both calls raise
  "day is out of range for month".
\<close>

theorem leap_day_birthday_raises_witness:
  "Birthday (str_of ''29.02.2024'') = Inr leap_birthday
   \<and> get_upcoming_birthdays \<lparr>year = 2025, month = 1, day = 15\<rparr> leap_book =
        Inl (ValueError (str_of ''day is out of range for month''))
   \<and> get_upcoming_birthdays \<lparr>year = 2024, month = 3, day = 1\<rparr> leap_book =
        Inl (ValueError (str_of ''day is out of range for month''))
   \<and> (\<exists>e. get_upcoming_birthdays \<lparr>year = 2025, month = 1, day = 15\<rparr> leap_book = Inl e)"
proof -
  have a: "Birthday (str_of ''29.02.2024'') = Inr leap_birthday"
    by (simp add: Birthday_def strptime_dmY_def re_match_dmY_def re_d_def re_m_def re_Y_def
        re_dot_def re_class1_def re_class2_def between_def py_int_def decimal_value_def
        py_isdecimal_def decimal_ranges_def in_range_def leap_birthday_def new_date_def
        days_in_month_def is_leap_def str_of_def)
  have b: "get_upcoming_birthdays \<lparr>year = 2025, month = 1, day = 15\<rparr> leap_book =
        Inl (ValueError (str_of ''day is out of range for month''))"
    by (simp add: leap_book_def leap_record_def leap_birthday_def calendar_eval)
  have c: "get_upcoming_birthdays \<lparr>year = 2024, month = 3, day = 1\<rparr> leap_book =
        Inl (ValueError (str_of ''day is out of range for month''))"
    by (simp add: leap_book_def leap_record_def leap_birthday_def calendar_eval)
  have "\<exists>e. get_upcoming_birthdays \<lparr>year = 2025, month = 1, day = 15\<rparr> leap_book = Inl e"
    by (rule leap_day_birthday_raises [where b = leap_birthday and r = leap_record])
      (simp_all add: leap_book_def leap_record_def leap_birthday_def dict_values_def is_leap_def)
  with a b c show ?thesis by blast
qed

subsection \<open>When get_upcoming_birthdays returns\<close>

lemma days_in_month_year:
  "m \<noteq> 2 \<Longrightarrow> days_in_month y m = days_in_month y' m"
  by (simp add: days_in_month_def)

lemma days_in_february: "28 \<le> days_in_month y 2 \<and> days_in_month y 2 \<le> 29"
  by (simp add: days_in_month_def DAYS_IN_MONTH_def)

lemma valid_replace_year:
  assumes "valid_date d" and "\<not> (month d = 2 \<and> day d = 29)" and "1 \<le> y" and "y \<le> 9999"
  shows "valid_date \<lparr>year = y, month = month d, day = day d\<rparr>"
proof (cases "month d = 2")
  case True
  from assms(1) True days_in_february [of "year d"] have "day d \<le> 29"
    by (simp add: valid_date_def)
  with assms(2) True have "day d \<le> 28" by simp
  with days_in_february [of y] assms True show ?thesis by (simp add: valid_date_def)
next
  case False
  from days_in_month_year [OF this, of y "year d"] assms show ?thesis
    by (simp add: valid_date_def)
qed

lemma occurrence_returns:
  assumes "valid_date today" and "year today < 9999"
    and "valid_date b" and "\<not> (month b = 2 \<and> day b = 29)"
  shows "\<exists>occ. occurrence today b = Inr occ"
proof -
  from assms(1) have y: "1 \<le> year today" by (simp add: valid_date_def)
  from assms(2) have y1: "year today \<le> 9999" by simp
  from y have y2: "1 \<le> year today + 1" by simp
  from assms(2) have y3: "year today + 1 \<le> 9999" by simp
  from valid_replace_year [OF assms(3,4) y y1]
  have 1: "replace_year b (year today) = Inr \<lparr>year = year today, month = month b, day = day b\<rparr>"
    by (simp add: replace_year_Inr)
  from valid_replace_year [OF assms(3,4) y2 y3]
  have 2: "replace_year \<lparr>year = year today, month = month b, day = day b\<rparr> (year today + 1) =
             Inr \<lparr>year = year today + 1, month = month b, day = day b\<rparr>"
    by (simp add: replace_year_Inr)
  from 1 2 show ?thesis by (simp add: occurrence_def)
qed

lemma next_day_year:
  "valid_date d \<Longrightarrow> year (next_day d) = (if month d = 12 \<and> day d = 31 then year d + 1 else year d)"
  by (auto simp: next_day_def valid_date_def days_in_december)

lemma weekday_last_days:
  "weekday \<lparr>year = 9999, month = 12, day = 30\<rparr> = 3"
  "weekday \<lparr>year = 9999, month = 12, day = 31\<rparr> = 4"
  by (simp_all add: weekday_def toordinal_def days_before_year_def days_before_month_def
      DAYS_BEFORE_MONTH_def is_leap_def)

lemma no_overflow_next_day:
  assumes "valid_date d" and "weekday d \<noteq> 4"
  shows "year (next_day d) \<le> 9999"
proof (cases "month d = 12 \<and> day d = 31")
  case True
  have "year d \<noteq> 9999"
  proof
    assume "year d = 9999"
    with True have "d = \<lparr>year = 9999, month = 12, day = 31\<rparr>" by (cases d) simp
    with weekday_last_days(2) assms(2) show False by simp
  qed
  with assms(1) have "year d + 1 \<le> 9999" by (simp add: valid_date_def)
  with True next_day_year [OF assms(1)] show ?thesis by simp
next
  case False
  with next_day_year [OF assms(1)] assms(1) show ?thesis by (auto simp: valid_date_def)
qed

lemma weekday_step: "(t + 1 + 6) mod 7 = ((t + 6) mod 7 + 1) mod (7::int)"
  by presburger

lemma weekday_next_day:
  assumes "valid_date d"
  shows "weekday (next_day d) = (weekday d + 1) mod 7"
proof -
  have "weekday (next_day d) = (toordinal d + 1 + 6) mod 7"
    by (simp only: weekday_def next_day_toordinal [OF assms])
  also have "\<dots> = ((toordinal d + 6) mod 7 + 1) mod 7" by (rule weekday_step)
  finally show ?thesis by (simp only: weekday_def)
qed

lemma congratulation_returns:
  assumes "valid_date occ"
  shows "\<exists>c. congratulation occ = Inr c"
proof (cases "weekday occ = 5")
  case True
  then have "weekday occ \<noteq> 4" by simp
  from no_overflow_next_day [OF assms this] have y1: "year (next_day occ) \<le> 9999" .
  from next_day_valid [OF assms y1] have v1: "valid_date (next_day occ)" .
  from weekday_next_day [OF assms] True have "weekday (next_day occ) \<noteq> 4" by simp
  from no_overflow_next_day [OF v1 this] have "year (next_day (next_day occ)) \<le> 9999" .
  with True show ?thesis
    by (simp add: congratulation_def add_days_def numeral_2_eq_2)
next
  case n5: False
  show ?thesis
  proof (cases "weekday occ = 6")
    case True
    then have "weekday occ \<noteq> 4" by simp
    from no_overflow_next_day [OF assms this] True show ?thesis
      by (simp add: congratulation_def add_days_def)
  next
    case False
    with n5 show ?thesis by (simp add: congratulation_def)
  qed
qed

lemma record_entry_returns:
  assumes "valid_date today" and "year today < 9999"
    and "case birthday r of None \<Rightarrow> True
         | Some b \<Rightarrow> valid_date (date_value b) \<and> \<not> (month (date_value b) = 2 \<and> day (date_value b) = 29)"
  shows "\<exists>es. record_entry today r = Inr es"
proof (cases "birthday r")
  case None
  then show ?thesis by (simp add: record_entry_def)
next
  case (Some b)
  with assms(3) have b: "valid_date (date_value b)" "\<not> (month (date_value b) = 2 \<and> day (date_value b) = 29)"
    by simp_all
  from occurrence_returns [OF assms(1,2) b] obtain occ where occ: "occurrence today (date_value b) = Inr occ"
    by blast
  from occurrence_Inr [OF occ] have "valid_date occ" by blast
  from congratulation_returns [OF this] obtain c where "congratulation occ = Inr c" by blast
  with Some occ show ?thesis by (simp add: record_entry_def Let_def)
qed

lemma upcoming_loop_returns:
  assumes "valid_date today" and "year today < 9999"
  shows "list_all (\<lambda>r. case birthday r of None \<Rightarrow> True
         | Some b \<Rightarrow> valid_date (date_value b) \<and> \<not> (month (date_value b) = 2 \<and> day (date_value b) = 29)) rs
       \<Longrightarrow> \<exists>res. upcoming_loop today rs acc = Inr res"
proof (induction rs arbitrary: acc)
  case Nil
  then show ?case by simp
next
  case (Cons r rs)
  from Cons.prems have "case birthday r of None \<Rightarrow> True
         | Some b \<Rightarrow> valid_date (date_value b) \<and> \<not> (month (date_value b) = 2 \<and> day (date_value b) = 29)"
    by simp
  from record_entry_returns [OF assms this] obtain es where es: "record_entry today r = Inr es"
    by blast
  from Cons.prems have "list_all (\<lambda>r. case birthday r of None \<Rightarrow> True
         | Some b \<Rightarrow> valid_date (date_value b) \<and> \<not> (month (date_value b) = 2 \<and> day (date_value b) = 29)) rs"
    by simp
  from Cons.IH [OF this, of "acc @ es"] es show ?case by simp
qed

text \<open>
  When today is a date before the year 9999 and every birthday of the book is a date
  of the calendar other than 29 February, \<open>get_upcoming_birthdays\<close> raises nothing: it
  returns the entries of the records in the window, in the order of the book.
\<close>

theorem get_upcoming_birthdays_returns:
  assumes "valid_date today" and "year today < 9999" and "plain_birthdays book"
  shows "get_upcoming_birthdays today book =
           Inr (map (spec_entry today) (filter (spec_included today) (dict_values book)))"
proof -
  from upcoming_loop_returns [OF assms(1,2), of "dict_values book" "[]"] assms(3)
  obtain res where res: "get_upcoming_birthdays today book = Inr res"
    unfolding plain_birthdays_def get_upcoming_birthdays_def by blast
  from get_upcoming_birthdays_Inr [OF res] res show ?thesis by simp
qed

text \<open>
  The theorem on 10 June 2024 for the book of four.
\<close>

theorem get_upcoming_birthdays_returns_witness:
  "plain_birthdays window_book
   \<and> get_upcoming_birthdays \<lparr>year = 2024, month = 6, day = 10\<rparr> window_book =
       Inr (map (spec_entry \<lparr>year = 2024, month = 6, day = 10\<rparr>)
              (filter (spec_included \<lparr>year = 2024, month = 6, day = 10\<rparr>) (dict_values window_book)))"
proof -
  have v: "valid_date \<lparr>year = 2024, month = 6, day = 10\<rparr>"
    by (simp add: valid_date_def days_in_month_def DAYS_IN_MONTH_def)
  have y: "year \<lparr>year = 2024, month = 6, day = 10\<rparr> < 9999" by simp
  have p: "plain_birthdays window_book"
    by (simp add: plain_birthdays_def window_book_def mk_record_def Record_def dict_values_def
        valid_date_def days_in_month_def DAYS_IN_MONTH_def)
  from get_upcoming_birthdays_returns [OF v y p] p show ?thesis by (intro conjI)
qed

subsection \<open>Exactly when get_upcoming_birthdays returns\<close>

lemma replace_year_returns:
  "(\<exists>x. replace_year d y = Inr x) \<longleftrightarrow> valid_date \<lparr>year = y, month = month d, day = day d\<rparr>"
  by (simp add: replace_year_Inr)

lemma occurrence_returns_iff:
  "(\<exists>occ. occurrence today b = Inr occ) \<longleftrightarrow> has_occurrence today b"
proof (cases "replace_year b (year today)")
  case (Inl e)
  then have "\<not> valid_date \<lparr>year = year today, month = month b, day = day b\<rparr>"
    using replace_year_returns [of b "year today"] by simp
  with Inl show ?thesis by (simp add: occurrence_def has_occurrence_def)
next
  case (Inr x)
  then have x: "x = \<lparr>year = year today, month = month b, day = day b\<rparr>" and v: "valid_date x"
    by (simp_all add: replace_year_Inr)
  show ?thesis
  proof (cases "date_less x today")
    case True
    with Inr have "occurrence today b = replace_year x (year today + 1)"
      by (simp add: occurrence_def)
    with True v x replace_year_returns [of x "year today + 1"] show ?thesis
      by (simp add: has_occurrence_def)
  next
    case False
    with Inr have "occurrence today b = Inr x" by (simp add: occurrence_def)
    with False v x show ?thesis by (simp add: has_occurrence_def)
  qed
qed

lemma record_entry_returns_iff:
  "(\<exists>es. record_entry today r = Inr es) \<longleftrightarrow>
     (case birthday r of None \<Rightarrow> True | Some b \<Rightarrow> has_occurrence today (date_value b))"
proof (cases "birthday r")
  case None
  then show ?thesis by (simp add: record_entry_def)
next
  case (Some b)
  show ?thesis
  proof (cases "occurrence today (date_value b)")
    case (Inl e)
    then have "\<not> has_occurrence today (date_value b)"
      using occurrence_returns_iff [of today "date_value b"] by simp
    with Some Inl show ?thesis by (simp add: record_entry_def)
  next
    case (Inr occ)
    then have h: "has_occurrence today (date_value b)"
      using occurrence_returns_iff [of today "date_value b"] by auto
    from occurrence_Inr [OF Inr] have "valid_date occ" by blast
    from congratulation_returns [OF this] obtain c where "congratulation occ = Inr c" by blast
    with Some Inr h show ?thesis by (simp add: record_entry_def Let_def)
  qed
qed

lemma upcoming_loop_returns_iff:
  "(\<exists>res. upcoming_loop today rs acc = Inr res) \<longleftrightarrow>
     list_all (\<lambda>r. case birthday r of None \<Rightarrow> True | Some b \<Rightarrow> has_occurrence today (date_value b)) rs"
proof (induction rs arbitrary: acc)
  case Nil
  then show ?case by simp
next
  case (Cons r rs)
  show ?case
  proof (cases "record_entry today r")
    case (Inl e)
    then have "\<not> (case birthday r of None \<Rightarrow> True | Some b \<Rightarrow> has_occurrence today (date_value b))"
      using record_entry_returns_iff [of today r] by simp
    with Inl show ?thesis by simp
  next
    case (Inr es)
    then have "case birthday r of None \<Rightarrow> True | Some b \<Rightarrow> has_occurrence today (date_value b)"
      using record_entry_returns_iff [of today r] by auto
    with Inr Cons.IH [of "acc @ es"] show ?thesis by simp
  qed
qed

text \<open>
  \<open>get_upcoming_birthdays\<close> returns exactly when every birthday of the book has an
  occurrence: its month and day exist in the year of today and, when that date lies
  before today, in the next year too (and that year is at most 9999). It then returns
  the entries of the records in the window, in the order of the book; otherwise it
  raises.
\<close>

theorem get_upcoming_birthdays_total:
  "(all_occur today book \<longrightarrow>
      get_upcoming_birthdays today book =
        Inr (map (spec_entry today) (filter (spec_included today) (dict_values book))))
   \<and> (\<not> all_occur today book \<longrightarrow> (\<exists>e. get_upcoming_birthdays today book = Inl e))"
proof (intro conjI impI)
  assume "all_occur today book"
  then obtain res where res: "get_upcoming_birthdays today book = Inr res"
    using upcoming_loop_returns_iff [of today "dict_values book" "[]"]
    unfolding all_occur_def get_upcoming_birthdays_def by blast
  from get_upcoming_birthdays_Inr [OF res] res
  show "get_upcoming_birthdays today book =
        Inr (map (spec_entry today) (filter (spec_included today) (dict_values book)))"
    by simp
next
  assume "\<not> all_occur today book"
  then have "\<not> (\<exists>res. get_upcoming_birthdays today book = Inr res)"
    using upcoming_loop_returns_iff [of today "dict_values book" "[]"]
    unfolding all_occur_def get_upcoming_birthdays_def by blast
  then show "\<exists>e. get_upcoming_birthdays today book = Inl e"
    by (cases "get_upcoming_birthdays today book") auto
qed

text \<open>
  The theorem on 25 February 2024 for the book whose one contact is born on
  29 February: 2024 is a leap year, and the call returns that contact for 29 February.
\<close>

theorem get_upcoming_birthdays_total_witness:
  "all_occur \<lparr>year = 2024, month = 2, day = 25\<rparr> leap_book
   \<and> get_upcoming_birthdays \<lparr>year = 2024, month = 2, day = 25\<rparr> leap_book =
       Inr [\<lparr>entry_name = str_of ''Eve'', congratulation_date = str_of ''2024.02.29''\<rparr>]
   \<and> map (spec_entry \<lparr>year = 2024, month = 2, day = 25\<rparr>)
         (filter (spec_included \<lparr>year = 2024, month = 2, day = 25\<rparr>) (dict_values leap_book)) =
       [\<lparr>entry_name = str_of ''Eve'', congratulation_date = str_of ''2024.02.29''\<rparr>]"
proof -
  have a: "all_occur \<lparr>year = 2024, month = 2, day = 25\<rparr> leap_book"
    by (simp add: all_occur_def has_occurrence_def leap_book_def leap_record_def leap_birthday_def
        dict_values_def valid_date_def days_in_month_def is_leap_def date_less_def)
  have e: "get_upcoming_birthdays \<lparr>year = 2024, month = 2, day = 25\<rparr> leap_book =
       Inr [\<lparr>entry_name = str_of ''Eve'', congratulation_date = str_of ''2024.02.29''\<rparr>]"
    by (simp add: leap_book_def leap_record_def leap_birthday_def calendar_eval)
  from get_upcoming_birthdays_total [THEN conjunct1, THEN mp, OF a] e
  have "map (spec_entry \<lparr>year = 2024, month = 2, day = 25\<rparr>)
         (filter (spec_included \<lparr>year = 2024, month = 2, day = 25\<rparr>) (dict_values leap_book)) =
       [\<lparr>entry_name = str_of ''Eve'', congratulation_date = str_of ''2024.02.29''\<rparr>]"
    by simp
  with a e show ?thesis by (intro conjI)
qed

subsection \<open>The seven day window and the weekend shift\<close>

lemma upcoming_loop_record:
  "upcoming_loop today rs acc = Inr res \<Longrightarrow> r \<in> set rs \<Longrightarrow> \<exists>es. record_entry today r = Inr es"
  by (induction rs arbitrary: acc) (auto split: sum.splits)

lemma included_congratulation:
  assumes "record_entry today r = Inr es" and "spec_included today r" and "birthday r = Some b"
  shows "valid_date (spec_occurrence today (date_value b))
         \<and> valid_date (spec_congratulation today (date_value b))
         \<and> toordinal (spec_congratulation today (date_value b)) =
             toordinal (spec_occurrence today (date_value b)) +
               int (spec_shift (weekday (spec_occurrence today (date_value b))))"
proof -
  from assms(1,3) obtain occ where occ: "occurrence today (date_value b) = Inr occ"
    by (auto simp: record_entry_def split: sum.splits)
  from occurrence_Inr [OF occ] have oe: "occ = spec_occurrence today (date_value b)" and ov: "valid_date occ"
    by blast+
  from assms(2,3) have "0 \<le> days_between occ today \<and> days_between occ today \<le> 7"
    by (simp add: spec_included_def days_between_def spec_days_until_def oe)
  with assms(1,3) occ obtain c where c: "congratulation occ = Inr c"
    by (auto simp: record_entry_def Let_def split: sum.splits)
  from congratulation_Inr [OF ov c] ov show ?thesis
    unfolding spec_congratulation_def oe by blast
qed

lemma weekday_shift:
  "(t + 6) mod 7 = (5::int) \<Longrightarrow> (t + 2 + 6) mod 7 = 0"
  "(t + 6) mod 7 = (6::int) \<Longrightarrow> (t + 1 + 6) mod 7 = 0"
  by presburger+

text \<open>
  The rule of the window. \<open>get_upcoming_birthdays\<close> returns a list whenever today is
  before the year 9999 and no birthday of the book is a 29 February; and whenever it
  returns a list, the names in it are, in the order of the book, the names of the
  records with a birthday whose occurrence (this year's month and day, or next year's
  when this year's lies before today) is at least 0 and at most 7 days after today. A
  birthday 7 days out is in the window and one 8 days out is not, and on 28 December
  2024 the occurrence of a birthday on 1 January is 1 January 2025.
\<close>

theorem upcoming_window:
  "(valid_date today \<and> year today < 9999 \<and> plain_birthdays book \<longrightarrow>
       (\<exists>res. get_upcoming_birthdays today book = Inr res))
   \<and> (\<forall>res. get_upcoming_birthdays today book = Inr res \<longrightarrow>
       map entry_name res = map name (filter (spec_included today) (dict_values book)))
   \<and> (\<forall>r b. birthday r = Some b \<and> spec_days_until today (date_value b) = 7 \<longrightarrow> spec_included today r)
   \<and> (\<forall>r b. birthday r = Some b \<and> spec_days_until today (date_value b) = 8 \<longrightarrow> \<not> spec_included today r)
   \<and> occurrence \<lparr>year = 2024, month = 12, day = 28\<rparr> \<lparr>year = y, month = 1, day = 1\<rparr> =
         Inr \<lparr>year = 2025, month = 1, day = 1\<rparr>"
proof -
  have 0: "valid_date today \<and> year today < 9999 \<and> plain_birthdays book \<longrightarrow>
       (\<exists>res. get_upcoming_birthdays today book = Inr res)"
  proof (intro impI, elim conjE)
    assume a: "valid_date today" "year today < 9999" "plain_birthdays book"
    from upcoming_loop_returns [OF a(1,2), of "dict_values book" "[]"] a(3)
    show "\<exists>res. get_upcoming_birthdays today book = Inr res"
      unfolding plain_birthdays_def get_upcoming_birthdays_def by blast
  qed
  have 1: "\<forall>res. get_upcoming_birthdays today book = Inr res \<longrightarrow>
       map entry_name res = map name (filter (spec_included today) (dict_values book))"
  proof (intro allI impI)
    fix res
    assume "get_upcoming_birthdays today book = Inr res"
    from get_upcoming_birthdays_Inr [OF this]
    show "map entry_name res = map name (filter (spec_included today) (dict_values book))"
      by (simp add: spec_entry_def comp_def)
  qed
  have 2: "\<forall>r b. birthday r = Some b \<and> spec_days_until today (date_value b) = 7 \<longrightarrow> spec_included today r"
    by (simp add: spec_included_def)
  have 3: "\<forall>r b. birthday r = Some b \<and> spec_days_until today (date_value b) = 8 \<longrightarrow> \<not> spec_included today r"
    by (simp add: spec_included_def)
  have 4: "occurrence \<lparr>year = 2024, month = 12, day = 28\<rparr> \<lparr>year = y, month = 1, day = 1\<rparr> =
         Inr \<lparr>year = 2025, month = 1, day = 1\<rparr>"
    by (simp add: occurrence_def replace_year_def new_date_def days_in_month_def DAYS_IN_MONTH_def
        date_less_def)
  from 0 1 2 3 4 show ?thesis by (intro conjI)
qed

text \<open>
  The theorem on 10 June 2024 for a book of four: a birthday on 17 June (7 days out,
  listed), one on 18 June (8 days out), one on 9 June (passed, so 364 days out) and a
  contact without a birthday.
\<close>

theorem upcoming_window_witness:
  "get_upcoming_birthdays \<lparr>year = 2024, month = 6, day = 10\<rparr> window_book =
     Inr [\<lparr>entry_name = str_of ''Ann'', congratulation_date = str_of ''2024.06.17''\<rparr>]
   \<and> map name (filter (spec_included \<lparr>year = 2024, month = 6, day = 10\<rparr>) (dict_values window_book)) =
       [str_of ''Ann'']
   \<and> spec_days_until \<lparr>year = 2024, month = 6, day = 10\<rparr> \<lparr>year = 1990, month = 6, day = 17\<rparr> = 7
   \<and> spec_days_until \<lparr>year = 2024, month = 6, day = 10\<rparr> \<lparr>year = 1985, month = 6, day = 18\<rparr> = 8
   \<and> spec_days_until \<lparr>year = 2024, month = 6, day = 10\<rparr> \<lparr>year = 2000, month = 6, day = 9\<rparr> = 364"
proof -
  have e: "get_upcoming_birthdays \<lparr>year = 2024, month = 6, day = 10\<rparr> window_book =
     Inr [\<lparr>entry_name = str_of ''Ann'', congratulation_date = str_of ''2024.06.17''\<rparr>]"
    by (simp add: window_book_def mk_record_def Record_def calendar_eval)
  have d: "spec_days_until \<lparr>year = 2024, month = 6, day = 10\<rparr> \<lparr>year = 1990, month = 6, day = 17\<rparr> = 7"
    "spec_days_until \<lparr>year = 2024, month = 6, day = 10\<rparr> \<lparr>year = 1985, month = 6, day = 18\<rparr> = 8"
    "spec_days_until \<lparr>year = 2024, month = 6, day = 10\<rparr> \<lparr>year = 2000, month = 6, day = 9\<rparr> = 364"
    by (simp_all add: spec_days_until_def spec_occurrence_def calendar_eval)
  from upcoming_window [of "\<lparr>year = 2024, month = 6, day = 10\<rparr>" window_book,
      THEN conjunct2, THEN conjunct1, rule_format, OF e]
  have "map name (filter (spec_included \<lparr>year = 2024, month = 6, day = 10\<rparr>) (dict_values window_book)) =
       [str_of ''Ann'']"
    by simp
  with e d show ?thesis by (intro conjI)
qed

text \<open>
  Claim C2 says that every record with a birthday is listed exactly when its occurrence
  is 0 to 7 days after today, for every date of today. The code breaks that, by the
  defect of claim C1: on 10 June 2024 Ann, born on 17 June, has her occurrence on
  17 June 2024, 7 days out, and is listed when she is alone in the book; with Eve,
  born on 29 February, in the same book, the roll forward of Eve's birthday to 2025
  raises \<^verbatim>\<open>ValueError\<close>, \<open>get_upcoming_birthdays\<close> returns no list, and Ann is not
  listed.
\<close>

theorem upcoming_window_lost_to_leap_day:
  "birthday ann_record =
     Some \<lparr>birthday_value = str_of ''17.06.1990'', date_value = \<lparr>year = 1990, month = 6, day = 17\<rparr>\<rparr>
   \<and> spec_occurrence \<lparr>year = 2024, month = 6, day = 10\<rparr> \<lparr>year = 1990, month = 6, day = 17\<rparr> =
       \<lparr>year = 2024, month = 6, day = 17\<rparr>
   \<and> spec_days_until \<lparr>year = 2024, month = 6, day = 10\<rparr> \<lparr>year = 1990, month = 6, day = 17\<rparr> = 7
   \<and> spec_included \<lparr>year = 2024, month = 6, day = 10\<rparr> ann_record
   \<and> get_upcoming_birthdays \<lparr>year = 2024, month = 6, day = 10\<rparr> [(str_of ''Ann'', ann_record)] =
       Inr [\<lparr>entry_name = str_of ''Ann'', congratulation_date = str_of ''2024.06.17''\<rparr>]
   \<and> get_upcoming_birthdays \<lparr>year = 2024, month = 6, day = 10\<rparr> mixed_book =
       Inl (ValueError (str_of ''day is out of range for month''))"
proof -
  have 1: "birthday ann_record =
     Some \<lparr>birthday_value = str_of ''17.06.1990'', date_value = \<lparr>year = 1990, month = 6, day = 17\<rparr>\<rparr>"
    by (simp add: ann_record_def mk_record_def)
  have 2: "spec_occurrence \<lparr>year = 2024, month = 6, day = 10\<rparr> \<lparr>year = 1990, month = 6, day = 17\<rparr> =
       \<lparr>year = 2024, month = 6, day = 17\<rparr>"
    by (simp add: spec_occurrence_def date_less_def)
  have 3: "spec_days_until \<lparr>year = 2024, month = 6, day = 10\<rparr> \<lparr>year = 1990, month = 6, day = 17\<rparr> = 7"
    unfolding spec_days_until_def 2 by (simp add: calendar_eval)
  have 4: "spec_included \<lparr>year = 2024, month = 6, day = 10\<rparr> ann_record"
    unfolding spec_included_def 1 by (simp add: 3)
  have 5: "get_upcoming_birthdays \<lparr>year = 2024, month = 6, day = 10\<rparr> [(str_of ''Ann'', ann_record)] =
       Inr [\<lparr>entry_name = str_of ''Ann'', congratulation_date = str_of ''2024.06.17''\<rparr>]"
    by (simp add: ann_record_def mk_record_def calendar_eval)
  have 6: "get_upcoming_birthdays \<lparr>year = 2024, month = 6, day = 10\<rparr> mixed_book =
       Inl (ValueError (str_of ''day is out of range for month''))"
    by (simp add: mixed_book_def ann_record_def mk_record_def leap_record_def leap_birthday_def
        calendar_eval)
  from 1 2 3 4 5 6 show ?thesis by (intro conjI)
qed

text \<open>
  Claim C3. Whenever \<open>get_upcoming_birthdays\<close> returns a list, it is the list of the
  entries of the records in the window, each with the name of its record and the
  congratulation date printed as year.month.day; and for each such record the
  occurrence and the congratulation date are dates of the calendar, the congratulation
  date is 2 days after the occurrence when that is a Saturday, 1 day after it when
  that is a Sunday and the occurrence itself otherwise, and it is never a Saturday or
  a Sunday.
\<close>

theorem congratulation_weekend_shift:
  assumes "get_upcoming_birthdays today book = Inr res"
  shows "res = map (spec_entry today) (filter (spec_included today) (dict_values book))
    \<and> (\<forall>r\<in>set (dict_values book). \<forall>b. birthday r = Some b \<and> spec_included today r \<longrightarrow>
          valid_date (spec_occurrence today (date_value b))
          \<and> valid_date (spec_congratulation today (date_value b))
          \<and> toordinal (spec_congratulation today (date_value b)) =
              toordinal (spec_occurrence today (date_value b)) +
                (if weekday (spec_occurrence today (date_value b)) = 5 then 2
                 else if weekday (spec_occurrence today (date_value b)) = 6 then 1 else 0)
          \<and> weekday (spec_congratulation today (date_value b)) < 5)"
proof -
  have "valid_date (spec_occurrence today (date_value b))
          \<and> valid_date (spec_congratulation today (date_value b))
          \<and> toordinal (spec_congratulation today (date_value b)) =
              toordinal (spec_occurrence today (date_value b)) +
                (if weekday (spec_occurrence today (date_value b)) = 5 then 2
                 else if weekday (spec_occurrence today (date_value b)) = 6 then 1 else 0)
          \<and> weekday (spec_congratulation today (date_value b)) < 5"
    if r: "r \<in> set (dict_values book)" and b: "birthday r = Some b" and i: "spec_included today r"
    for r b
  proof -
    from assms r obtain es where es: "record_entry today r = Inr es"
      unfolding get_upcoming_birthdays_def by (blast dest: upcoming_loop_record)
    define occ c where "occ = spec_occurrence today (date_value b)"
      and "c = spec_congratulation today (date_value b)"
    from included_congratulation [OF es i b]
    have v: "valid_date occ" "valid_date c"
      and t: "toordinal c = toordinal occ + int (spec_shift (weekday occ))"
      unfolding occ_def c_def by blast+
    have w: "0 \<le> weekday occ" "weekday occ < 7" by (simp_all add: weekday_def)
    have "weekday c < 5"
    proof (cases "weekday occ = 5")
      case True
      with t have "toordinal c = toordinal occ + 2" by (simp add: spec_shift_def)
      with True weekday_shift(1) [of "toordinal occ"] show ?thesis by (simp add: weekday_def)
    next
      case n5: False
      show ?thesis
      proof (cases "weekday occ = 6")
        case True
        with t have "toordinal c = toordinal occ + 1" by (simp add: spec_shift_def)
        with True weekday_shift(2) [of "toordinal occ"] show ?thesis by (simp add: weekday_def)
      next
        case False
        with n5 t have "toordinal c = toordinal occ" by (simp add: spec_shift_def)
        then have "weekday c = weekday occ" by (simp add: weekday_def)
        with n5 False w show ?thesis by simp
      qed
    qed
    with v t show ?thesis
      unfolding occ_def [symmetric] c_def [symmetric] by (simp add: spec_shift_def)
  qed
  with get_upcoming_birthdays_Inr [OF assms] show ?thesis by blast
qed

text \<open>
  The theorem on Monday 10 June 2024: a birthday on Saturday 15 June (5 days out) and
  one on Sunday 16 June are both congratulated on Monday 17 June, one on Wednesday
  12 June on that day.
\<close>

theorem congratulation_weekend_shift_witness:
  "get_upcoming_birthdays \<lparr>year = 2024, month = 6, day = 10\<rparr> weekend_book =
     Inr [\<lparr>entry_name = str_of ''Bob'', congratulation_date = str_of ''2024.06.17''\<rparr>,
          \<lparr>entry_name = str_of ''Ann'', congratulation_date = str_of ''2024.06.17''\<rparr>,
          \<lparr>entry_name = str_of ''Cid'', congratulation_date = str_of ''2024.06.12''\<rparr>]
   \<and> map (spec_entry \<lparr>year = 2024, month = 6, day = 10\<rparr>)
         (filter (spec_included \<lparr>year = 2024, month = 6, day = 10\<rparr>) (dict_values weekend_book)) =
       [\<lparr>entry_name = str_of ''Bob'', congratulation_date = str_of ''2024.06.17''\<rparr>,
        \<lparr>entry_name = str_of ''Ann'', congratulation_date = str_of ''2024.06.17''\<rparr>,
        \<lparr>entry_name = str_of ''Cid'', congratulation_date = str_of ''2024.06.12''\<rparr>]
   \<and> weekday \<lparr>year = 2024, month = 6, day = 15\<rparr> = 5
   \<and> weekday \<lparr>year = 2024, month = 6, day = 16\<rparr> = 6
   \<and> weekday \<lparr>year = 2024, month = 6, day = 12\<rparr> = 2
   \<and> days_between \<lparr>year = 2024, month = 6, day = 15\<rparr> \<lparr>year = 2024, month = 6, day = 10\<rparr> = 5"
proof -
  have e: "get_upcoming_birthdays \<lparr>year = 2024, month = 6, day = 10\<rparr> weekend_book =
     Inr [\<lparr>entry_name = str_of ''Bob'', congratulation_date = str_of ''2024.06.17''\<rparr>,
          \<lparr>entry_name = str_of ''Ann'', congratulation_date = str_of ''2024.06.17''\<rparr>,
          \<lparr>entry_name = str_of ''Cid'', congratulation_date = str_of ''2024.06.12''\<rparr>]"
    by (simp add: weekend_book_def mk_record_def calendar_eval)
  have w: "weekday \<lparr>year = 2024, month = 6, day = 15\<rparr> = 5"
    "weekday \<lparr>year = 2024, month = 6, day = 16\<rparr> = 6"
    "weekday \<lparr>year = 2024, month = 6, day = 12\<rparr> = 2"
    "days_between \<lparr>year = 2024, month = 6, day = 15\<rparr> \<lparr>year = 2024, month = 6, day = 10\<rparr> = 5"
    by (simp_all add: calendar_eval)
  from congratulation_weekend_shift [OF e] e w show ?thesis by simp
qed

subsection \<open>Parsing a birthday\<close>

lemma re_class1_mem:
  "(x, r) \<in> set (re_class1 p s) \<longleftrightarrow> (\<exists>a. x = [a] \<and> s = a # r \<and> p a)"
  by (auto simp: re_class1_def split: list.splits)

lemma re_class2_mem:
  "(x, r) \<in> set (re_class2 p q s) \<longleftrightarrow> (\<exists>a b. x = [a, b] \<and> s = a # b # r \<and> p a \<and> q b)"
  by (auto simp: re_class2_def split: list.splits)

lemma day_text_cases:
  "day_text x \<longleftrightarrow>
     (\<exists>a. x = [a] \<and> between 49 57 a) \<or>
     (\<exists>a b. x = [a, b] \<and> ((a = 51 \<and> between 48 49 b) \<or> (between 49 50 a \<and> py_isdecimal b) \<or>
          (a = 48 \<and> between 49 57 b) \<or> (a = 32 \<and> between 49 57 b)))"
  by (auto simp: day_text_def split: list.splits)

lemma month_text_cases:
  "month_text x \<longleftrightarrow>
     (\<exists>a. x = [a] \<and> between 49 57 a) \<or>
     (\<exists>a b. x = [a, b] \<and> ((a = 49 \<and> between 48 50 b) \<or> (a = 48 \<and> between 49 57 b)))"
  by (auto simp: month_text_def split: list.splits)

lemma re_d_mem: "(x, r) \<in> set (re_d s) \<longleftrightarrow> s = x @ r \<and> day_text x"
  unfolding re_d_def day_text_cases set_append Un_iff re_class1_mem re_class2_mem
  by (auto simp: between_def)

lemma re_m_mem: "(x, r) \<in> set (re_m s) \<longleftrightarrow> s = x @ r \<and> month_text x"
  unfolding re_m_def month_text_cases set_append Un_iff re_class1_mem re_class2_mem
  by (auto simp: between_def)

lemma re_dot_mem: "(x, r) \<in> set (re_dot s) \<longleftrightarrow> x = [46] \<and> s = 46 # r"
  unfolding re_dot_def re_class1_mem by (auto simp: between_def)

lemma year_text_cases:
  "year_text x \<longleftrightarrow>
     (\<exists>a b c d. x = [a, b, c, d] \<and> py_isdecimal a \<and> py_isdecimal b \<and> py_isdecimal c \<and> py_isdecimal d)"
  by (auto simp: year_text_def eval_nat_numeral length_Suc_conv)

lemma re_Y_mem: "(x, r) \<in> set (re_Y s) \<longleftrightarrow> s = x @ r \<and> year_text x"
  unfolding year_text_cases by (auto simp: re_Y_def split: list.splits)

lemma in_concat_map_pair:
  "z \<in> set (concat (map (\<lambda>(a, b). f a b) xs)) \<longleftrightarrow> (\<exists>a b. (a, b) \<in> set xs \<and> z \<in> set (f a b))"
  by auto

lemma in_map_last:
  "(d, m, y, r) \<in> set (map (\<lambda>(y, r5). (d', m', y, r5)) xs) \<longleftrightarrow>
     d = d' \<and> m = m' \<and> (y, r) \<in> set xs"
  by (auto simp: image_iff)

lemma re_match_mem:
  "(d, m, y, r) \<in> set (re_match_dmY s) \<longleftrightarrow>
     s = d @ [46] @ m @ [46] @ y @ r \<and> day_text d \<and> month_text m \<and> year_text y"
  unfolding re_match_dmY_def in_concat_map_pair in_map_last re_d_mem re_m_mem re_dot_mem re_Y_mem
  by auto

lemma not_decimal_dot: "\<not> py_isdecimal 46"
  by (simp add: py_isdecimal_def decimal_ranges_def in_range_def)

lemma day_text_unique:
  assumes "day_text d" and "day_text d'" and "d @ 46 # u = d' @ 46 # u'"
  shows "d = d' \<and> u = u'"
  using assms not_decimal_dot unfolding day_text_cases by (auto simp: between_def)

lemma month_text_unique:
  assumes "month_text m" and "month_text m'" and "m @ 46 # u = m' @ 46 # u'"
  shows "m = m' \<and> u = u'"
  using assms unfolding month_text_cases by (auto simp: between_def)

lemma year_text_unique:
  assumes "year_text y" and "year_text y'" and "y @ u = y' @ u'"
  shows "y = y' \<and> u = u'"
  using assms by (simp add: year_text_def)

lemma re_match_unique:
  assumes "(d, m, y, r) \<in> set (re_match_dmY s)" and "(d', m', y', r') \<in> set (re_match_dmY s)"
  shows "d = d' \<and> m = m' \<and> y = y' \<and> r = r'"
proof -
  from assms have a: "s = d @ 46 # m @ 46 # y @ r" "day_text d" "month_text m" "year_text y"
    and b: "s = d' @ 46 # m' @ 46 # y' @ r'" "day_text d'" "month_text m'" "year_text y'"
    by (simp_all add: re_match_mem)
  from a(1) b(1) have "d @ 46 # m @ 46 # y @ r = d' @ 46 # m' @ 46 # y' @ r'" by simp
  from day_text_unique [OF a(2) b(2) this] have d: "d = d'" and 1: "m @ 46 # y @ r = m' @ 46 # y' @ r'"
    by blast+
  from month_text_unique [OF a(3) b(3) 1] have m: "m = m'" and 2: "y @ r = y' @ r'"
    by blast+
  from year_text_unique [OF a(4) b(4) 2] d m show ?thesis by blast
qed

lemma strptime_dmY_Inr:
  "strptime_dmY s = Inr x \<longleftrightarrow>
     (\<exists>d m y. date_text s d m y \<and> valid_date (date_of_text d m y) \<and> x = date_of_text d m y)"
proof
  assume l: "strptime_dmY s = Inr x"
  then obtain d m y r rest where h: "re_match_dmY s = (d, m, y, r) # rest"
    by (cases "re_match_dmY s") (auto simp: strptime_dmY_def)
  with l have r: "r = []" and n: "new_date (py_int y) (py_int m) (py_int d) = Inr x"
    by (auto simp: strptime_dmY_def split: if_splits)
  from h have "(d, m, y, r) \<in> set (re_match_dmY s)" by simp
  with r have "date_text s d m y" by (simp add: re_match_mem date_text_def)
  with n show "\<exists>d m y. date_text s d m y \<and> valid_date (date_of_text d m y) \<and> x = date_of_text d m y"
    by (auto simp: new_date_Inr date_of_text_def)
next
  assume "\<exists>d m y. date_text s d m y \<and> valid_date (date_of_text d m y) \<and> x = date_of_text d m y"
  then obtain d m y where t: "date_text s d m y" and v: "valid_date (date_of_text d m y)"
    and x: "x = date_of_text d m y" by blast
  from t have mem: "(d, m, y, []) \<in> set (re_match_dmY s)"
    by (simp add: re_match_mem date_text_def)
  then obtain h rest where h: "re_match_dmY s = h # rest"
    by (cases "re_match_dmY s") auto
  obtain d' m' y' r' where h': "h = (d', m', y', r')" by (cases h) auto
  with h have "(d', m', y', r') \<in> set (re_match_dmY s)" by simp
  from re_match_unique [OF mem this] have e: "d' = d" "m' = m" "y' = y" "r' = []" by simp_all
  from v have "new_date (py_int y) (py_int m) (py_int d) = Inr x"
    by (simp add: new_date_Inr x date_of_text_def)
  with h h' e show "strptime_dmY s = Inr x" by (simp add: strptime_dmY_def)
qed

lemma strptime_dmY_Inl: "strptime_dmY s = Inl e \<Longrightarrow> \<exists>m. e = ValueError m"
  by (auto simp: strptime_dmY_def new_date_def split: list.splits if_splits)

lemma Birthday_Inr:
  "Birthday t = Inr b \<longleftrightarrow>
     (\<exists>d m y. date_text t d m y \<and> valid_date (date_of_text d m y)
        \<and> b = \<lparr>birthday_value = t, date_value = date_of_text d m y\<rparr>)"
proof (cases "strptime_dmY t")
  case (Inl e)
  from strptime_dmY_Inl [OF this] Inl have "Birthday t \<noteq> Inr b"
    by (auto simp: Birthday_def)
  moreover from Inl have "\<not> (\<exists>d m y. date_text t d m y \<and> valid_date (date_of_text d m y))"
    using strptime_dmY_Inr [of t] by auto
  ultimately show ?thesis by blast
next
  case (Inr x)
  then have b: "Birthday t = Inr \<lparr>birthday_value = t, date_value = x\<rparr>"
    by (simp add: Birthday_def)
  from Inr obtain d m y where t: "date_text t d m y" "valid_date (date_of_text d m y)" "x = date_of_text d m y"
    unfolding strptime_dmY_Inr by blast
  show ?thesis
  proof
    assume "Birthday t = Inr b"
    with b t show "\<exists>d m y. date_text t d m y \<and> valid_date (date_of_text d m y)
        \<and> b = \<lparr>birthday_value = t, date_value = date_of_text d m y\<rparr>" by auto
  next
    assume "\<exists>d m y. date_text t d m y \<and> valid_date (date_of_text d m y)
        \<and> b = \<lparr>birthday_value = t, date_value = date_of_text d m y\<rparr>"
    then obtain d' m' y' where t': "date_text t d' m' y'" "valid_date (date_of_text d' m' y')"
      "b = \<lparr>birthday_value = t, date_value = date_of_text d' m' y'\<rparr>" by blast
    then have "strptime_dmY t = Inr (date_of_text d' m' y')"
      unfolding strptime_dmY_Inr by blast
    with Inr t'(3) b show "Birthday t = Inr b" by simp
  qed
qed

lemma Birthday_Inl:
  "Birthday t = Inl e \<Longrightarrow> e = ValueError (str_of ''Invalid date format. Use DD.MM.YYYY'')"
  by (cases "strptime_dmY t") (auto simp: Birthday_def dest: strptime_dmY_Inl)

lemma decimal_value_ascii: "ascii_digit c \<Longrightarrow> decimal_value c = int c - 48"
  by (auto simp: decimal_value_def decimal_ranges_def in_range_def ascii_digit_def)

lemma py_int_two:
  "ascii_digit a \<Longrightarrow> ascii_digit b \<Longrightarrow> py_int [a, b] = 10 * (int a - 48) + (int b - 48)"
  by (simp add: py_int_def decimal_value_ascii) (simp add: ascii_digit_def)

lemma days_in_month_le: "1 \<le> m \<Longrightarrow> m \<le> 12 \<Longrightarrow> days_in_month y m \<le> 31"
  using month_cases [of m] by (auto simp: days_in_month_def DAYS_IN_MONTH_def)

lemma strict_day_text:
  assumes "ascii_digit a" and "ascii_digit b" and "1 \<le> py_int [a, b]" and "py_int [a, b] \<le> 31"
  shows "day_text [a, b]"
proof -
  from assms have v: "1 \<le> 10 * (int a - 48) + (int b - 48)" "10 * (int a - 48) + (int b - 48) \<le> 31"
    by (simp_all add: py_int_two)
  from assms(1,2) have r: "48 \<le> a" "a \<le> 57" "48 \<le> b" "b \<le> 57"
    by (simp_all add: ascii_digit_def)
  from v r have "a = 48 \<and> 49 \<le> b \<or> a = 49 \<or> a = 50 \<or> a = 51 \<and> b \<le> 49" by arith
  with r assms(2) show ?thesis
    by (auto simp: day_text_def between_def dest: ascii_digit_isdecimal)
qed

lemma strict_month_text:
  assumes "ascii_digit a" and "ascii_digit b" and "1 \<le> py_int [a, b]" and "py_int [a, b] \<le> 12"
  shows "month_text [a, b]"
proof -
  from assms have v: "1 \<le> 10 * (int a - 48) + (int b - 48)" "10 * (int a - 48) + (int b - 48) \<le> 12"
    by (simp_all add: py_int_two)
  from assms(1,2) have r: "48 \<le> a" "a \<le> 57" "48 \<le> b" "b \<le> 57"
    by (simp_all add: ascii_digit_def)
  from v r have "a = 48 \<and> 49 \<le> b \<or> a = 49 \<and> b \<le> 50" by arith
  with r show ?thesis
    by (auto simp: month_text_def between_def)
qed

lemma length_ten:
  assumes "length t = 10"
  obtains d1 d2 p1 m1 m2 p2 y1 y2 y3 y4 :: 'a where "t = [d1, d2, p1, m1, m2, p2, y1, y2, y3, y4]"
proof -
  from assms obtain d1 t1 where 1: "t = d1 # t1" "length t1 = 9" by (cases t) auto
  then obtain d2 t2 where 2: "t1 = d2 # t2" "length t2 = 8" by (cases t1) auto
  then obtain p1 t3 where 3: "t2 = p1 # t3" "length t3 = 7" by (cases t2) auto
  then obtain m1 t4 where 4: "t3 = m1 # t4" "length t4 = 6" by (cases t3) auto
  then obtain m2 t5 where 5: "t4 = m2 # t5" "length t5 = 5" by (cases t4) auto
  then obtain p2 t6 where 6: "t5 = p2 # t6" "length t6 = 4" by (cases t5) auto
  then obtain y1 t7 where 7: "t6 = y1 # t7" "length t7 = 3" by (cases t6) auto
  then obtain y2 t8 where 8: "t7 = y2 # t8" "length t8 = 2" by (cases t7) auto
  then obtain y3 t9 where 9: "t8 = y3 # t9" "length t9 = 1" by (cases t8) auto
  then obtain y4 where 10: "t9 = [y4]" by (cases t9) auto
  from 1 2 3 4 5 6 7 8 9 10 that show thesis by simp
qed

lemma strict_date_text:
  assumes "spec_strict_form t" and "valid_date (spec_strict_date t)"
  shows "date_text t (take 2 t) (take 2 (drop 3 t)) (drop 6 t)"
proof -
  from assms(1) have "length t = 10" by (simp add: spec_strict_form_def)
  then obtain d1 d2 p1 m1 m2 p2 y1 y2 y3 y4 where t: "t = [d1, d2, p1, m1, m2, p2, y1, y2, y3, y4]"
    by (rule length_ten)
  from assms(1) have f: "ascii_digit d1" "ascii_digit d2" "p1 = 46" "ascii_digit m1" "ascii_digit m2"
    "p2 = 46" "ascii_digit y1" "ascii_digit y2" "ascii_digit y3" "ascii_digit y4"
    unfolding spec_strict_form_def t by simp_all
  from assms(2) have m: "1 \<le> py_int [m1, m2]" "py_int [m1, m2] \<le> 12"
    and d: "1 \<le> py_int [d1, d2]"
      "py_int [d1, d2] \<le> days_in_month (py_int [y1, y2, y3, y4]) (py_int [m1, m2])"
    unfolding valid_date_def spec_strict_date_def date_of_text_def t by simp_all
  from days_in_month_le [OF m, of "py_int [y1, y2, y3, y4]"] d(2) have "py_int [d1, d2] \<le> 31"
    by simp
  from strict_day_text [OF f(1,2) d(1) this] have dt: "day_text [d1, d2]" .
  from strict_month_text [OF f(4,5) m] have mt: "month_text [m1, m2]" .
  from f(7-10) have yt: "year_text [y1, y2, y3, y4]"
    by (simp add: year_text_def ascii_digit_isdecimal)
  from dt mt yt f(3,6) show ?thesis
    unfolding date_text_def t by simp
qed

text \<open>
  Claim C5, as the code has it. \<open>Birthday t\<close> succeeds exactly when \<open>t\<close> is a day text,
  a dot, a month text, a dot and a year text that together denote a date of the
  calendar (year 1 to 9999); it then keeps both \<open>t\<close> and the date. Otherwise it
  raises the \<^verbatim>\<open>ValueError\<close> "Invalid date format. Use DD.MM.YYYY". Every text of the
  form \<^verbatim>\<open>DD.MM.YYYY\<close> that denotes a date of the calendar is accepted, with that date.
\<close>

theorem Birthday_validation:
  "((\<exists>b. Birthday t = Inr b) \<longleftrightarrow> (\<exists>d m y. date_text t d m y \<and> valid_date (date_of_text d m y)))
   \<and> (\<forall>d m y. date_text t d m y \<and> valid_date (date_of_text d m y) \<longrightarrow>
         Birthday t = Inr \<lparr>birthday_value = t, date_value = date_of_text d m y\<rparr>)
   \<and> (\<forall>b. Birthday t = Inr b \<longrightarrow> birthday_value b = t \<and> valid_date (date_value b))
   \<and> ((\<forall>b. Birthday t \<noteq> Inr b) \<longrightarrow>
         Birthday t = Inl (ValueError (str_of ''Invalid date format. Use DD.MM.YYYY'')))
   \<and> (spec_strict_form t \<and> valid_date (spec_strict_date t) \<longrightarrow>
         Birthday t = Inr \<lparr>birthday_value = t, date_value = spec_strict_date t\<rparr>)"
proof -
  have 1: "(\<exists>b. Birthday t = Inr b) \<longleftrightarrow> (\<exists>d m y. date_text t d m y \<and> valid_date (date_of_text d m y))"
    unfolding Birthday_Inr by blast
  have 2: "\<forall>d m y. date_text t d m y \<and> valid_date (date_of_text d m y) \<longrightarrow>
         Birthday t = Inr \<lparr>birthday_value = t, date_value = date_of_text d m y\<rparr>"
    unfolding Birthday_Inr by blast
  have 3: "\<forall>b. Birthday t = Inr b \<longrightarrow> birthday_value b = t \<and> valid_date (date_value b)"
    unfolding Birthday_Inr by auto
  have 4: "(\<forall>b. Birthday t \<noteq> Inr b) \<longrightarrow>
         Birthday t = Inl (ValueError (str_of ''Invalid date format. Use DD.MM.YYYY''))"
    using Birthday_Inl [of t] by (cases "Birthday t") auto
  have 5: "spec_strict_form t \<and> valid_date (spec_strict_date t) \<longrightarrow>
         Birthday t = Inr \<lparr>birthday_value = t, date_value = spec_strict_date t\<rparr>"
    using strict_date_text [of t] 2 unfolding spec_strict_date_def by blast
  from 1 2 3 4 5 show ?thesis by blast
qed

lemma date_text_unique:
  assumes "date_text t d m y" and "date_text t d' m' y'"
  shows "d' = d \<and> m' = m \<and> y' = y"
proof -
  from assms have "(d, m, y, []) \<in> set (re_match_dmY t)" "(d', m', y', []) \<in> set (re_match_dmY t)"
    by (simp_all add: re_match_mem date_text_def)
  from re_match_unique [OF this] show ?thesis by simp
qed

lemma Birthday_of_text:
  assumes "date_text t d m y"
  shows "Birthday t =
           (if valid_date (date_of_text d m y)
            then Inr \<lparr>birthday_value = t, date_value = date_of_text d m y\<rparr>
            else Inl (ValueError (str_of ''Invalid date format. Use DD.MM.YYYY'')))"
proof (cases "valid_date (date_of_text d m y)")
  case True
  with assms have "Birthday t = Inr \<lparr>birthday_value = t, date_value = date_of_text d m y\<rparr>"
    unfolding Birthday_Inr by blast
  with True show ?thesis by simp
next
  case False
  have "Birthday t \<noteq> Inr b" for b
  proof
    assume "Birthday t = Inr b"
    then obtain d' m' y' where "date_text t d' m' y'" "valid_date (date_of_text d' m' y')"
      unfolding Birthday_Inr by blast
    with date_text_unique [OF assms this(1)] False show False by simp
  qed
  then obtain e where "Birthday t = Inl e" by (cases "Birthday t") auto
  with Birthday_Inl [OF this] False show ?thesis by simp
qed

lemmas text_eval =
  date_of_text_def py_int_def decimal_value_def decimal_ranges_def in_range_def
  str_of_def valid_date_def days_in_month_def is_leap_def DAYS_IN_MONTH_def

lemmas form_eval =
  date_text_def day_text_def month_text_def year_text_def between_def str_of_def
  py_isdecimal_def decimal_ranges_def in_range_def

text \<open>
  The three examples of the specification: 15.06.1990 and 29.02.2024 are accepted,
  31.02.2024 is rejected.
\<close>

theorem Birthday_validation_witness:
  "Birthday (str_of ''15.06.1990'') =
     Inr \<lparr>birthday_value = str_of ''15.06.1990'', date_value = \<lparr>year = 1990, month = 6, day = 15\<rparr>\<rparr>
   \<and> Birthday (str_of ''29.02.2024'') =
     Inr \<lparr>birthday_value = str_of ''29.02.2024'', date_value = \<lparr>year = 2024, month = 2, day = 29\<rparr>\<rparr>
   \<and> Birthday (str_of ''31.02.2024'') =
     Inl (ValueError (str_of ''Invalid date format. Use DD.MM.YYYY''))"
proof -
  have a: "spec_strict_form (str_of ''15.06.1990'')"
    "valid_date (spec_strict_date (str_of ''15.06.1990''))"
    "spec_strict_date (str_of ''15.06.1990'') = \<lparr>year = 1990, month = 6, day = 15\<rparr>"
    by (simp_all add: spec_strict_form_def spec_strict_date_def ascii_digit_def text_eval)
  have b: "spec_strict_form (str_of ''29.02.2024'')"
    "valid_date (spec_strict_date (str_of ''29.02.2024''))"
    "spec_strict_date (str_of ''29.02.2024'') = \<lparr>year = 2024, month = 2, day = 29\<rparr>"
    by (simp_all add: spec_strict_form_def spec_strict_date_def ascii_digit_def text_eval)
  have "date_text (str_of ''31.02.2024'') (str_of ''31'') (str_of ''02'') (str_of ''2024'')"
    by (simp add: form_eval)
  moreover have "\<not> valid_date (date_of_text (str_of ''31'') (str_of ''02'') (str_of ''2024''))"
    by (simp add: text_eval)
  ultimately have c: "Birthday (str_of ''31.02.2024'') =
     Inl (ValueError (str_of ''Invalid date format. Use DD.MM.YYYY''))"
    by (simp add: Birthday_of_text)
  note strict = Birthday_validation [THEN conjunct2, THEN conjunct2, THEN conjunct2, THEN conjunct2, THEN mp, OF conjI]
  from strict [OF a(1,2)] strict [OF b(1,2)] c show ?thesis
    unfolding a(3) b(3) by (intro conjI)
qed

text \<open>
  Claim C5 as stated fails in one direction: the text 1.2.2024 is not of the form
  \<^verbatim>\<open>DD.MM.YYYY\<close>, and \<open>Birthday\<close> accepts it as 1 February 2024, since the pattern of
  \<^verbatim>\<open>%d\<close> and \<^verbatim>\<open>%m\<close> takes one digit as well as two.
\<close>

theorem Birthday_short_fields_counterexample:
  "\<not> spec_strict_form (str_of ''1.2.2024'')
   \<and> Birthday (str_of ''1.2.2024'') =
       Inr \<lparr>birthday_value = str_of ''1.2.2024'', date_value = \<lparr>year = 2024, month = 2, day = 1\<rparr>\<rparr>"
proof -
  have "date_text (str_of ''1.2.2024'') (str_of ''1'') (str_of ''2'') (str_of ''2024'')"
    by (simp add: form_eval)
  moreover have "date_of_text (str_of ''1'') (str_of ''2'') (str_of ''2024'') = \<lparr>year = 2024, month = 2, day = 1\<rparr>"
    by (simp add: text_eval)
  moreover have "valid_date \<lparr>year = 2024, month = 2, day = 1\<rparr>"
    by (simp add: text_eval)
  ultimately have "Birthday (str_of ''1.2.2024'') =
       Inr \<lparr>birthday_value = str_of ''1.2.2024'', date_value = \<lparr>year = 2024, month = 2, day = 1\<rparr>\<rparr>"
    by (simp add: Birthday_of_text)
  moreover have "\<not> spec_strict_form (str_of ''1.2.2024'')"
    by (simp add: spec_strict_form_def str_of_def)
  ultimately show ?thesis by simp
qed

end
